theory Spec2Isabelle
  imports Main "HOL-Library.Word"
begin

unbundle bit_operations_syntax

section \<open>PRT sprite containers: the codec of \<open>prt_file.py\<close>\<close>

text \<open>
  The main stream and the companion blob are byte sequences. Values unpacked from
  them are Python integers, hence \<open>int\<close>; \<open>struct.pack\<close> raises when a value does
  not fit its format, so packing returns a sum.
\<close>

type_synonym byte = "8 word"
type_synonym bytes = "byte list"

subsection \<open>Errors\<close>

text \<open>
  The messages of \<open>PRTLoadError\<close>, one constructor for each \<open>raise\<close> of the source with
  the values its message prints.
\<close>

datatype load_error =
    RanOutOfData nat nat
  | SignatureNotCPAL bytes
  | UnexpectedPPALSize int
  | RIFFNotImplemented
  | UnexpectedHeadSize int
  | UnexpectedDataSize int
  | UnhandledTag bytes int
  | NotValidBMP
  | PaletteIdOutOfRange nat int
  | IncorrectAnimations int int
  | IncorrectFrames int int
  | IncorrectSubframes int int

text \<open>
  \<open>StructError\<close> is Python's \<open>struct.error\<close>, \<open>TypeError\<close> what \<open>int(None)\<close> raises,
  \<open>IndexError\<close> what \<open>ap[3]\<close> raises on a short list and \<open>OverflowError\<close> what
  \<open>read\<close> raises on a size that is not a C \<open>ssize_t\<close>.
\<close>

datatype error = PRTLoadError load_error | StructError | TypeError | IndexError | OverflowError

subsection \<open>Data model\<close>

text \<open>\<open>palette.Color(r, g, b, flags)\<close>; the fields carry a prefix here.\<close>

record Color =
  col_r :: int
  col_g :: int
  col_b :: int
  col_flags :: int

record Palette =
  colors :: "Color list"

text \<open>
  \<open>bitmap.Bitmap\<close> with the attributes \<open>_LoadBitmaps\<close> sets. \<open>bmp_palette\<close> is a
  reference to an entry of the palette table in the source, its value here.
\<close>

record Bitmap =
  bmp_palette :: Palette
  bmp_palette_id :: int
  bmp_image_type :: int
  bmp_width :: int
  bmp_height :: int
  bmp_data :: bytes

datatype Rect = Rect (rect_left: int) (rect_top: int) (rect_right: int) (rect_bottom: int)

datatype Point = Point (pt_x: int) (pt_y: int)

record Subframe =
  sf_bitmap_id :: int
  sf_unknown :: int
  sf_subframe_id :: int
  sf_offset :: Point

record Frame =
  frame_subframes :: "Subframe list"
  frame_unknown :: int
  optional1 :: "int option"
  optional2 :: "int option"
  optional3 :: "int option"
  optional4 :: "int option"

record Animation =
  anim_unknown1 :: int
  anim_bounding_box :: Rect
  anim_offset :: Point
  anim_unknown2 :: int
  anim_frames :: "Frame list"
  anim_appendix :: "int list list"
  anim_unknown3 :: int

record PRTFile =
  palettes :: "Palette list"
  bitmaps :: "Bitmap list"
  animations :: "Animation list"
  num_optional_entries :: int
  extra_data :: bytes

subsection \<open>\<open>struct\<close>: little-endian packing and unpacking\<close>

fun le_uint :: "bytes \<Rightarrow> int" where
  "le_uint [] = 0"
| "le_uint (x # xs) = uint x + 256 * le_uint xs"

fun le_bytes :: "nat \<Rightarrow> int \<Rightarrow> bytes" where
  "le_bytes 0 v = []"
| "le_bytes (Suc n) v = word_of_int (v mod 256) # le_bytes n (v div 256)"

text \<open>Formats \<open>B\<close> (unsigned 8 bit), \<open>I\<close> (unsigned 32 bit) and \<open>h\<close> (signed 16 bit).\<close>

definition unpack_B :: "byte \<Rightarrow> int" where
  "unpack_B x = uint x"

definition unpack_I :: "bytes \<Rightarrow> int" where
  "unpack_I bs = le_uint bs"

definition unpack_h :: "bytes \<Rightarrow> int" where
  "unpack_h bs = (let u = le_uint bs in if u < 32768 then u else u - 65536)"

definition pack_B :: "int \<Rightarrow> error + bytes" where
  "pack_B v = (if 0 \<le> v \<and> v \<le> 255 then Inr (le_bytes 1 v) else Inl StructError)"

definition pack_I :: "int \<Rightarrow> error + bytes" where
  "pack_I v = (if 0 \<le> v \<and> v \<le> 4294967295 then Inr (le_bytes 4 v) else Inl StructError)"

definition pack_h :: "int \<Rightarrow> error + bytes" where
  "pack_h v =
     (if - 32768 \<le> v \<and> v \<le> 32767 then Inr (le_bytes 2 (v mod 65536)) else Inl StructError)"

text \<open>
  \<open>struct.pack\<close> of several fields: the fields side by side, or the error of the
  first field that does not fit.
\<close>

fun pack_fields :: "(error + bytes) list \<Rightarrow> error + bytes" where
  "pack_fields [] = Inr []"
| "pack_fields (Inl e # fs) = Inl e"
| "pack_fields (Inr bs # fs) =
     (case pack_fields fs of Inl e \<Rightarrow> Inl e | Inr r \<Rightarrow> Inr (bs @ r))"

text \<open>The four-byte tags \<open>b'CPAL'\<close>, \<open>b'PPAL'\<close>, \<open>b'RIFF'\<close>, \<open>b'head'\<close>, \<open>b'data'\<close> and \<open>b'BM'\<close>.\<close>

definition tag_CPAL :: bytes where "tag_CPAL = [0x43, 0x50, 0x41, 0x4C]"
definition tag_PPAL :: bytes where "tag_PPAL = [0x50, 0x50, 0x41, 0x4C]"
definition tag_RIFF :: bytes where "tag_RIFF = [0x52, 0x49, 0x46, 0x46]"
definition tag_head :: bytes where "tag_head = [0x68, 0x65, 0x61, 0x64]"
definition tag_data :: bytes where "tag_data = [0x64, 0x61, 0x74, 0x61]"
definition tag_BM :: bytes where "tag_BM = [0x42, 0x4D]"

subsection \<open>Loading\<close>

text \<open>
  \<open>_ReadAndUnpack\<close>: read \<open>n\<close> bytes from the main stream, which is the list of the
  bytes not read yet. The unpacking by format is done by the caller.
\<close>

definition ReadAndUnpack :: "nat \<Rightarrow> bytes \<Rightarrow> error + (bytes \<times> bytes)" where
  "ReadAndUnpack n s =
     (let data = take n s in
      if length data \<noteq> n then Inl (PRTLoadError (RanOutOfData n (length data)))
      else Inr (data, drop n s))"

text \<open>\<open>for j in range(256)\<close>: one colour entry, blue and red swapped, appended to \<open>pal.colors\<close>.\<close>

definition color_of_entry :: "bytes \<Rightarrow> Color" where
  "color_of_entry entry =
     \<lparr>col_r = unpack_B (entry ! 2), col_g = unpack_B (entry ! 1),
      col_b = unpack_B (entry ! 0), col_flags = unpack_B (entry ! 3)\<rparr>"

fun load_colors :: "nat \<Rightarrow> Color list \<Rightarrow> bytes \<Rightarrow> error + (Color list \<times> bytes)" where
  "load_colors 0 cols s = Inr (cols, s)"
| "load_colors (Suc j) cols s =
     (case ReadAndUnpack 4 s of
        Inl e \<Rightarrow> Inl e
      | Inr (entry, s') \<Rightarrow> load_colors j (cols @ [color_of_entry entry]) s')"

lemma ReadAndUnpack_length:
  "ReadAndUnpack n s = Inr (d, s') \<Longrightarrow> length d = n \<and> length s = n + length s'"
  by (auto simp: ReadAndUnpack_def Let_def split: if_splits)

lemma load_colors_length:
  "load_colors j cols s = Inr (cols', s') \<Longrightarrow> length s' \<le> length s"
proof (induction j arbitrary: cols s)
  case 0
  then show ?case by simp
next
  case (Suc j)
  then show ?case
    by (fastforce split: sum.splits prod.splits dest: ReadAndUnpack_length)
qed

text \<open>
  \<open>while num_tags_left > 0\<close>: the sections of one palette entry. A \<open>head\<close> section
  replaces the number of tags still expected by its payload.
\<close>

function load_palette_tags :: "int \<Rightarrow> Color list \<Rightarrow> bytes \<Rightarrow> error + (Color list \<times> bytes)" where
  "load_palette_tags num_tags_left cols s =
     (if num_tags_left > 0 then
        (case ReadAndUnpack 8 s of
           Inl e \<Rightarrow> Inl e
         | Inr (hdr, s1) \<Rightarrow>
             (if take 4 hdr = tag_PPAL then
                (if unpack_I (drop 4 hdr) \<noteq> 1048
                 then Inl (PRTLoadError (UnexpectedPPALSize (unpack_I (drop 4 hdr))))
                 else load_palette_tags (num_tags_left - 1) cols s1)
              else if take 4 hdr = tag_RIFF then Inl (PRTLoadError RIFFNotImplemented)
              else if take 4 hdr = tag_head then
                (if unpack_I (drop 4 hdr) \<noteq> 4
                 then Inl (PRTLoadError (UnexpectedHeadSize (unpack_I (drop 4 hdr))))
                 else (case ReadAndUnpack 4 s1 of
                         Inl e \<Rightarrow> Inl e
                       | Inr (d, s2) \<Rightarrow> load_palette_tags (unpack_I d) cols s2))
              else if take 4 hdr = tag_data then
                (if unpack_I (drop 4 hdr) \<noteq> 1024
                 then Inl (PRTLoadError (UnexpectedDataSize (unpack_I (drop 4 hdr))))
                 else (case load_colors 256 cols s1 of
                         Inl e \<Rightarrow> Inl e
                       | Inr (cols', s2) \<Rightarrow> load_palette_tags (num_tags_left - 1) cols' s2))
              else Inl (PRTLoadError (UnhandledTag (take 4 hdr) (unpack_I (drop 4 hdr))))))
      else Inr (cols, s))"
  by pat_completeness auto
termination
  by (relation "measure (\<lambda>(n, cols, s). length s)")
     (auto dest!: ReadAndUnpack_length load_colors_length)

declare load_palette_tags.simps [simp del]

text \<open>
  \<open>for i in range(num_palettes)\<close>: a fresh palette, filled by the sections of its
  entry, which starts out expecting two tags.
\<close>

fun load_palettes_loop :: "nat \<Rightarrow> bytes \<Rightarrow> error + (Palette list \<times> bytes)" where
  "load_palettes_loop 0 s = Inr ([], s)"
| "load_palettes_loop (Suc n) s =
     (case load_palette_tags 2 [] s of
        Inl e \<Rightarrow> Inl e
      | Inr (cols, s1) \<Rightarrow>
          (case load_palettes_loop n s1 of
             Inl e \<Rightarrow> Inl e
           | Inr (pals, s2) \<Rightarrow> Inr (\<lparr>colors = cols\<rparr> # pals, s2)))"

definition LoadPalettes :: "bytes \<Rightarrow> error + (Palette list \<times> bytes)" where
  "LoadPalettes s =
     (case ReadAndUnpack 8 s of
        Inl e \<Rightarrow> Inl e
      | Inr (hdr, s1) \<Rightarrow>
          (if take 4 hdr \<noteq> tag_CPAL then Inl (PRTLoadError (SignatureNotCPAL (take 4 hdr)))
           else load_palettes_loop (nat (unpack_I (drop 4 hdr))) s1))"

text \<open>
  One bitmap record, \<open><IIIIhh\<close>: padded width, offset, height, width, image type and
  palette id. The pixel bytes are what the companion blob \<open>bmp\<close> holds from
  \<open>offset + data_start\<close> on, at most \<open>padded_w * h\<close> of them (\<open>read\<close> returns fewer at
  the end of the blob). The size \<open>padded_w * h\<close> can be as large as the square of
  \<open>2^32 - 1\<close>, and \<open>read\<close> raises \<open>OverflowError\<close> on a size above the largest
  \<open>ssize_t\<close>, \<open>2^63 - 1\<close> on a 64-bit build of CPython. The palette id is checked
  before the read. Below that size \<open>read\<close> returns what the blob holds, as
  \<open>io.BytesIO\<close> does; the memory that a large read takes is not modelled.
\<close>

definition load_bitmap ::
  "nat \<Rightarrow> Palette list \<Rightarrow> bytes \<Rightarrow> int \<Rightarrow> bytes \<Rightarrow> error + (Bitmap \<times> bytes)" where
  "load_bitmap i pals bmp data_start s =
     (case ReadAndUnpack 20 s of
        Inl e \<Rightarrow> Inl e
      | Inr (d, s1) \<Rightarrow>
          (let padded_w = unpack_I (take 4 d);
               offset = unpack_I (take 4 (drop 4 d));
               h = unpack_I (take 4 (drop 8 d));
               w = unpack_I (take 4 (drop 12 d));
               img_type = unpack_h (take 2 (drop 16 d));
               pal_id = unpack_h (take 2 (drop 18 d))
           in if pal_id < 0 \<or> pal_id > int (length pals) - 1
              then Inl (PRTLoadError (PaletteIdOutOfRange i pal_id))
              else if padded_w * h > 9223372036854775807
              then Inl OverflowError
              else Inr (\<lparr>bmp_palette = pals ! nat pal_id, bmp_palette_id = pal_id,
                         bmp_image_type = img_type, bmp_width = w, bmp_height = h,
                         bmp_data = take (nat (padded_w * h)) (drop (nat (offset + data_start)) bmp)\<rparr>,
                        s1)))"

fun load_bitmaps_loop ::
  "nat \<Rightarrow> nat \<Rightarrow> Palette list \<Rightarrow> bytes \<Rightarrow> int \<Rightarrow> bytes \<Rightarrow> error + (Bitmap list \<times> bytes)" where
  "load_bitmaps_loop 0 i pals bmp data_start s = Inr ([], s)"
| "load_bitmaps_loop (Suc n) i pals bmp data_start s =
     (case load_bitmap i pals bmp data_start s of
        Inl e \<Rightarrow> Inl e
      | Inr (b, s1) \<Rightarrow>
          (case load_bitmaps_loop n (Suc i) pals bmp data_start s1 of
             Inl e \<Rightarrow> Inl e
           | Inr (bs, s2) \<Rightarrow> Inr (b # bs, s2)))"

text \<open>
  \<open>_LoadBitmaps\<close>: the 14-byte header \<open><2s I hh I\<close> of the companion blob
  (\<open>struct.unpack\<close> raises on a shorter buffer), then the bitmap table of the main stream.
\<close>

definition LoadBitmaps :: "bytes \<Rightarrow> Palette list \<Rightarrow> bytes \<Rightarrow> error + (Bitmap list \<times> bytes)" where
  "LoadBitmaps bmp pals s =
     (let buf = take 14 bmp in
      if length buf \<noteq> 14 then Inl StructError
      else if take 2 buf \<noteq> tag_BM then Inl (PRTLoadError NotValidBMP)
      else (case ReadAndUnpack 4 s of
              Inl e \<Rightarrow> Inl e
            | Inr (d, s1) \<Rightarrow>
                load_bitmaps_loop (nat (unpack_I d)) 0 pals bmp (unpack_I (drop 10 buf)) s1))"

text \<open>One subframe record, \<open><hBBhh\<close>.\<close>

definition subframe_of :: "bytes \<Rightarrow> Subframe" where
  "subframe_of d =
     \<lparr>sf_bitmap_id = unpack_h (take 2 d), sf_unknown = unpack_B (d ! 2),
      sf_subframe_id = unpack_B (d ! 3),
      sf_offset = Point (unpack_h (take 2 (drop 4 d))) (unpack_h (take 2 (drop 6 d)))\<rparr>"

text \<open>
  \<open>for k in range(subframes)\<close>, with the running counter \<open>num_loaded_subframes\<close>.
\<close>

fun load_subframes :: "nat \<Rightarrow> int \<Rightarrow> bytes \<Rightarrow> error + (Subframe list \<times> int \<times> bytes)" where
  "load_subframes 0 num_loaded_subframes s = Inr ([], num_loaded_subframes, s)"
| "load_subframes (Suc k) num_loaded_subframes s =
     (case ReadAndUnpack 8 s of
        Inl e \<Rightarrow> Inl e
      | Inr (d, s1) \<Rightarrow>
          (case load_subframes k (num_loaded_subframes + 1) s1 of
             Inl e \<Rightarrow> Inl e
           | Inr (sfs, n, s2) \<Rightarrow> Inr (subframe_of d # sfs, n, s2)))"

text \<open>
  A byte whose bit \<open>0x80\<close> is set is followed by two optional bytes and loses the
  bit; otherwise the pair stays \<open>None\<close>.
\<close>

definition load_optional_pair ::
  "int \<Rightarrow> bytes \<Rightarrow> error + (int \<times> int option \<times> int option \<times> bytes)" where
  "load_optional_pair v s =
     (if v AND 0x80 \<noteq> 0 then
        (case ReadAndUnpack 2 s of
           Inl e \<Rightarrow> Inl e
         | Inr (d, s1) \<Rightarrow> Inr (v AND 0x7F, Some (unpack_B (d ! 0)), Some (unpack_B (d ! 1)), s1))
      else Inr (v, None, None, s))"

text \<open>The body of \<open>for j in range(frames)\<close>.\<close>

definition load_frame :: "int \<Rightarrow> bytes \<Rightarrow> error + (Frame \<times> int \<times> bytes)" where
  "load_frame num_loaded_subframes s =
     (case ReadAndUnpack 2 s of
        Inl e \<Rightarrow> Inl e
      | Inr (d, s1) \<Rightarrow>
          (case load_optional_pair (unpack_B (d ! 0)) s1 of
             Inl e \<Rightarrow> Inl e
           | Inr (subframes, opt1, opt2, s2) \<Rightarrow>
               (case load_optional_pair (unpack_B (d ! 1)) s2 of
                  Inl e \<Rightarrow> Inl e
                | Inr (unknown, opt3, opt4, s3) \<Rightarrow>
                    (case load_subframes (nat subframes) num_loaded_subframes s3 of
                       Inl e \<Rightarrow> Inl e
                     | Inr (sfs, n, s4) \<Rightarrow>
                         Inr (\<lparr>frame_subframes = sfs, frame_unknown = unknown,
                               optional1 = opt1, optional2 = opt2,
                               optional3 = opt3, optional4 = opt4\<rparr>, n, s4)))))"

fun load_frames ::
  "nat \<Rightarrow> int \<Rightarrow> int \<Rightarrow> bytes \<Rightarrow> error + (Frame list \<times> int \<times> int \<times> bytes)" where
  "load_frames 0 num_loaded_frames num_loaded_subframes s =
     Inr ([], num_loaded_frames, num_loaded_subframes, s)"
| "load_frames (Suc j) num_loaded_frames num_loaded_subframes s =
     (case load_frame num_loaded_subframes s of
        Inl e \<Rightarrow> Inl e
      | Inr (f, nsf, s1) \<Rightarrow>
          (case load_frames j (num_loaded_frames + 1) nsf s1 of
             Inl e \<Rightarrow> Inl e
           | Inr (fs, nf', nsf', s2) \<Rightarrow> Inr (f # fs, nf', nsf', s2)))"

text \<open>
  \<open>for j in range(unk3)\<close>: the appendix records, \<open><4I\<close> each; the source counts
  them in \<open>num_loaded_anims\<close>.
\<close>

definition appendix_of :: "bytes \<Rightarrow> int list" where
  "appendix_of d =
     [unpack_I (take 4 d), unpack_I (take 4 (drop 4 d)),
      unpack_I (take 4 (drop 8 d)), unpack_I (take 4 (drop 12 d))]"

fun load_appendix :: "nat \<Rightarrow> int \<Rightarrow> bytes \<Rightarrow> error + (int list list \<times> int \<times> bytes)" where
  "load_appendix 0 num_loaded_anims s = Inr ([], num_loaded_anims, s)"
| "load_appendix (Suc j) num_loaded_anims s =
     (case ReadAndUnpack 16 s of
        Inl e \<Rightarrow> Inl e
      | Inr (d, s1) \<Rightarrow>
          (case load_appendix j (num_loaded_anims + 1) s1 of
             Inl e \<Rightarrow> Inl e
           | Inr (aps, n, s2) \<Rightarrow> Inr (appendix_of d # aps, n, s2)))"

text \<open>The body of \<open>for i in range(num_anims)\<close>: the record \<open><IIIIIIIII\<close>, the frames, the appendix.\<close>

definition load_animation ::
  "int \<Rightarrow> int \<Rightarrow> int \<Rightarrow> bytes \<Rightarrow> error + (Animation \<times> int \<times> int \<times> int \<times> bytes)" where
  "load_animation num_loaded_frames num_loaded_subframes num_loaded_anims s =
     (case ReadAndUnpack 36 s of
        Inl e \<Rightarrow> Inl e
      | Inr (d, s1) \<Rightarrow>
          (case load_frames (nat (unpack_I (take 4 (drop 32 d))))
                  num_loaded_frames num_loaded_subframes s1 of
             Inl e \<Rightarrow> Inl e
           | Inr (fs, nf, nsf, s2) \<Rightarrow>
               (case ReadAndUnpack 4 s2 of
                  Inl e \<Rightarrow> Inl e
                | Inr (u, s3) \<Rightarrow>
                    (case load_appendix (nat (unpack_I u)) num_loaded_anims s3 of
                       Inl e \<Rightarrow> Inl e
                     | Inr (aps, na, s4) \<Rightarrow>
                         Inr (\<lparr>anim_unknown1 = unpack_I (take 4 d),
                               anim_bounding_box =
                                 Rect (unpack_I (take 4 (drop 4 d))) (unpack_I (take 4 (drop 8 d)))
                                      (unpack_I (take 4 (drop 12 d))) (unpack_I (take 4 (drop 16 d))),
                               anim_offset =
                                 Point (unpack_I (take 4 (drop 20 d))) (unpack_I (take 4 (drop 24 d))),
                               anim_unknown2 = unpack_I (take 4 (drop 28 d)),
                               anim_frames = fs, anim_appendix = aps,
                               anim_unknown3 = unpack_I u\<rparr>, nf, nsf, na, s4)))))"

fun load_animations ::
  "nat \<Rightarrow> int \<Rightarrow> int \<Rightarrow> int \<Rightarrow> bytes
     \<Rightarrow> error + (Animation list \<times> int \<times> int \<times> int \<times> bytes)" where
  "load_animations 0 nf nsf na s = Inr ([], nf, nsf, na, s)"
| "load_animations (Suc i) nf nsf na s =
     (case load_animation nf nsf na s of
        Inl e \<Rightarrow> Inl e
      | Inr (a, nf1, nsf1, na1, s1) \<Rightarrow>
          (case load_animations i nf1 nsf1 na1 s1 of
             Inl e \<Rightarrow> Inl e
           | Inr (as, nf2, nsf2, na2, s2) \<Rightarrow> Inr (a # as, nf2, nsf2, na2, s2)))"

text \<open>
  The rest of the body of \<open>Load\<close> after the two tables: the four header counts, each
  read on its own, the animations, then the three checks of the loaded counts. What is
  left of the stream is the extra data.
\<close>

definition LoadAnimations ::
  "bytes \<Rightarrow> error + (Animation list \<times> int \<times> bytes)" where
  "LoadAnimations s =
     (case ReadAndUnpack 4 s of
        Inl e \<Rightarrow> Inl e
      | Inr (d1, s1) \<Rightarrow>
     (case ReadAndUnpack 4 s1 of
        Inl e \<Rightarrow> Inl e
      | Inr (d2, s2) \<Rightarrow>
     (case ReadAndUnpack 4 s2 of
        Inl e \<Rightarrow> Inl e
      | Inr (d3, s3) \<Rightarrow>
     (case ReadAndUnpack 4 s3 of
        Inl e \<Rightarrow> Inl e
      | Inr (d4, s4) \<Rightarrow>
          (let num_anims = unpack_I d1;
               num_frames = unpack_I d2;
               num_subframes = unpack_I d3;
               num_optional = unpack_I d4
           in case load_animations (nat num_anims) 0 0 0 s4 of
                Inl e \<Rightarrow> Inl e
              | Inr (anims, num_loaded_frames, num_loaded_subframes, num_loaded_anims, s5) \<Rightarrow>
                  if int (length anims) \<noteq> num_anims
                  then Inl (PRTLoadError (IncorrectAnimations num_loaded_anims num_anims))
                  else if num_loaded_frames \<noteq> num_frames
                  then Inl (PRTLoadError (IncorrectFrames num_loaded_frames num_frames))
                  else if num_loaded_subframes \<noteq> num_subframes
                  then Inl (PRTLoadError (IncorrectSubframes num_loaded_subframes num_loaded_subframes))
                  else Inr (anims, num_optional, s5))))))"

text \<open>\<open>Load\<close> on a fresh \<open>PRTFile\<close>, both files at their start.\<close>

definition Load :: "bytes \<Rightarrow> bytes \<Rightarrow> error + PRTFile" where
  "Load prt bmp =
     (case LoadPalettes prt of
        Inl e \<Rightarrow> Inl e
      | Inr (pals, s1) \<Rightarrow>
          (case LoadBitmaps bmp pals s1 of
             Inl e \<Rightarrow> Inl e
           | Inr (bms, s2) \<Rightarrow>
               (case LoadAnimations s2 of
                  Inl e \<Rightarrow> Inl e
                | Inr (anims, num_optional, extra) \<Rightarrow>
                    Inr \<lparr>palettes = pals, bitmaps = bms, animations = anims,
                         num_optional_entries = num_optional, extra_data = extra\<rparr>)))"

subsection \<open>Writing\<close>

text \<open>
  What a piece of the writer has done: the bytes it wrote to the main stream, and the
  exception that stopped it, if one did. \<open>emit\<close> is \<open>self._prt_file.write(struct.pack(...))\<close>,
  \<open>seqw\<close> runs one piece after another and \<open>write_each\<close> is a \<open>for\<close> loop over a list.
\<close>

type_synonym wres = "bytes \<times> error option"

definition emit :: "error + bytes \<Rightarrow> wres" where
  "emit p = (case p of Inl e \<Rightarrow> ([], Some e) | Inr bs \<Rightarrow> (bs, None))"

definition seqw :: "wres \<Rightarrow> wres \<Rightarrow> wres" where
  "seqw a b = (case snd a of None \<Rightarrow> (fst a @ fst b, snd b) | Some e \<Rightarrow> a)"

fun seqws :: "wres list \<Rightarrow> wres" where
  "seqws [] = ([], None)"
| "seqws (a # as) = seqw a (seqws as)"

fun write_each :: "('a \<Rightarrow> wres) \<Rightarrow> 'a list \<Rightarrow> wres" where
  "write_each f [] = ([], None)"
| "write_each f (x # xs) = seqw (f x) (write_each f xs)"

definition write_color :: "Color \<Rightarrow> wres" where
  "write_color color =
     emit (pack_fields [pack_B (col_b color), pack_B (col_g color),
                        pack_B (col_r color), pack_B (col_flags color)])"

definition write_palette :: "Palette \<Rightarrow> wres" where
  "write_palette pal =
     seqws [emit (pack_fields [Inr tag_PPAL, pack_I 1048]),
            emit (pack_fields [Inr tag_head, pack_I 4, pack_I 1]),
            emit (pack_fields [Inr tag_data, pack_I 1024]),
            write_each write_color (colors pal)]"

definition WritePalettes :: "Palette list \<Rightarrow> wres" where
  "WritePalettes pals =
     seqw (emit (pack_fields [Inr tag_CPAL, pack_I (int (length pals))]))
          (write_each write_palette pals)"

text \<open>
  The loop of \<open>_WriteBitmaps\<close>: the record of each bitmap goes to the main stream, with
  the padded width computed from the width and the offset the length of the master
  buffer so far; its pixel bytes are appended to \<open>master_bmp.data\<close>, the second
  argument and the second result.
\<close>

fun write_bitmaps_loop :: "Bitmap list \<Rightarrow> bytes \<Rightarrow> wres \<times> bytes" where
  "write_bitmaps_loop [] master = (([], None), master)"
| "write_bitmaps_loop (bmp # bmps) master =
     (let padded_width = (bmp_width bmp + 3) AND NOT 3 in
      case emit (pack_fields [pack_I padded_width, pack_I (int (length master)),
                              pack_I (bmp_height bmp), pack_I (bmp_width bmp),
                              pack_h (bmp_image_type bmp), pack_h (bmp_palette_id bmp)]) of
        (out, Some e) \<Rightarrow> ((out, Some e), master)
      | (out, None) \<Rightarrow>
          (case write_bitmaps_loop bmps (master @ bmp_data bmp) of
             (r, master') \<Rightarrow> (seqw (out, None) r, master')))"

text \<open>
  \<open>_WriteBitmaps\<close>. \<open>WriteBMPToOpenFile\<close> belongs to the module \<open>bitmap\<close>: here it is
  the parameter \<open>wbmp\<close>, from the pixel bytes of the master bitmap (whose palette is 256
  black entries) to the bytes of the companion blob. The result is the piece written to
  the main stream and the companion blob, written only when nothing was raised before.
\<close>

definition WriteBitmaps :: "(bytes \<Rightarrow> bytes) \<Rightarrow> Bitmap list \<Rightarrow> wres \<times> bytes option" where
  "WriteBitmaps wbmp bmps =
     (case emit (pack_I (int (length bmps))) of
        (out, Some e) \<Rightarrow> ((out, Some e), None)
      | (out, None) \<Rightarrow>
          (case write_bitmaps_loop bmps [] of
             (r, master) \<Rightarrow>
               (seqw (out, None) r, if snd r = None then Some (wbmp master) else None)))"

definition write_subframe :: "Subframe \<Rightarrow> wres" where
  "write_subframe sf =
     emit (pack_fields [pack_h (sf_bitmap_id sf), pack_B (sf_unknown sf),
                        pack_B (sf_subframe_id sf),
                        pack_h (pt_x (sf_offset sf)), pack_h (pt_y (sf_offset sf))])"

text \<open>\<open>int(opt)\<close>: a \<open>TypeError\<close> on \<open>None\<close>.\<close>

definition py_int :: "int option \<Rightarrow> error + int" where
  "py_int opt = (case opt of None \<Rightarrow> Inl TypeError | Some v \<Rightarrow> Inr v)"

text \<open>\<open>struct.pack('<2B', int(a), int(b))\<close>: both conversions come before the packing.\<close>

definition pack_optional_pair :: "int option \<Rightarrow> int option \<Rightarrow> error + bytes" where
  "pack_optional_pair a b =
     (case py_int a of
        Inl e \<Rightarrow> Inl e
      | Inr x \<Rightarrow>
          (case py_int b of
             Inl e \<Rightarrow> Inl e
           | Inr y \<Rightarrow> pack_fields [pack_B x, pack_B y]))"

text \<open>The body of \<open>for frame in anim['frames']\<close>.\<close>

definition write_frame :: "Frame \<Rightarrow> wres" where
  "write_frame frame =
     (let opt1 = optional1 frame; opt2 = optional2 frame;
          opt3 = optional3 frame; opt4 = optional4 frame;
          subframes = (if opt1 \<noteq> None \<or> opt2 \<noteq> None
                       then int (length (frame_subframes frame)) OR 0x80
                       else int (length (frame_subframes frame)));
          unknown = (if opt3 \<noteq> None \<or> opt4 \<noteq> None
                     then frame_unknown frame OR 0x80
                     else frame_unknown frame)
      in seqws [emit (pack_fields [pack_B subframes, pack_B unknown]),
                (if opt1 \<noteq> None \<or> opt2 \<noteq> None
                 then emit (pack_optional_pair opt1 opt2) else ([], None)),
                (if opt3 \<noteq> None \<or> opt4 \<noteq> None
                 then emit (pack_optional_pair opt3 opt4) else ([], None)),
                write_each write_subframe (frame_subframes frame)])"

text \<open>\<open>ap[0], ap[1], ap[2], ap[3]\<close>: an \<open>IndexError\<close> on a list shorter than four.\<close>

definition write_appendix :: "int list \<Rightarrow> wres" where
  "write_appendix ap =
     emit (if length ap < 4 then Inl IndexError
           else pack_fields [pack_I (ap ! 0), pack_I (ap ! 1), pack_I (ap ! 2), pack_I (ap ! 3)])"

text \<open>The body of \<open>for anim in self.animations\<close>.\<close>

definition write_animation :: "Animation \<Rightarrow> wres" where
  "write_animation anim =
     (let bbox = anim_bounding_box anim; off = anim_offset anim in
      seqws [emit (pack_fields [pack_I (anim_unknown1 anim),
                                pack_I (rect_left bbox), pack_I (rect_top bbox),
                                pack_I (rect_right bbox), pack_I (rect_bottom bbox),
                                pack_I (pt_x off), pack_I (pt_y off),
                                pack_I (anim_unknown2 anim),
                                pack_I (int (length (anim_frames anim)))]),
             write_each write_frame (anim_frames anim),
             emit (pack_I (anim_unknown3 anim)),
             write_each write_appendix (anim_appendix anim)])"

text \<open>The header counts of \<open>Write\<close>, summed from the lists in memory.\<close>

definition count_frames :: "Animation list \<Rightarrow> int" where
  "count_frames anims = (\<Sum>anim\<leftarrow>anims. int (length (anim_frames anim)))"

definition count_subframes :: "Animation list \<Rightarrow> int" where
  "count_subframes anims =
     (\<Sum>anim\<leftarrow>anims. \<Sum>frame\<leftarrow>anim_frames anim. int (length (frame_subframes frame)))"

text \<open>The rest of the body of \<open>Write\<close> after the two tables.\<close>

definition WriteAnimations :: "PRTFile \<Rightarrow> wres" where
  "WriteAnimations c =
     seqws [emit (pack_I (int (length (animations c)))),
            emit (pack_I (count_frames (animations c))),
            emit (pack_I (count_subframes (animations c))),
            emit (pack_I (num_optional_entries c)),
            write_each write_animation (animations c),
            (extra_data c, None)]"

text \<open>
  \<open>Write\<close>: what went to the main stream, what went to the companion blob (nothing
  when an exception came first), and the exception raised, if any.
\<close>

record written =
  prt_out :: bytes
  bmp_out :: "bytes option"
  raised :: "error option"

definition Write :: "(bytes \<Rightarrow> bytes) \<Rightarrow> PRTFile \<Rightarrow> written" where
  "Write wbmp c =
     (case WritePalettes (palettes c) of
        (out1, Some e) \<Rightarrow> \<lparr>prt_out = out1, bmp_out = None, raised = Some e\<rparr>
      | (out1, None) \<Rightarrow>
          (case WriteBitmaps wbmp (bitmaps c) of
             ((out2, Some e), b) \<Rightarrow> \<lparr>prt_out = out1 @ out2, bmp_out = b, raised = Some e\<rparr>
           | ((out2, None), b) \<Rightarrow>
               (case WriteAnimations c of
                  (out3, r) \<Rightarrow> \<lparr>prt_out = out1 @ out2 @ out3, bmp_out = b, raised = r\<rparr>)))"

subsection \<open>Values that fit their format\<close>

text \<open>
  The ranges of the formats \<open>B\<close>, \<open>I\<close> and \<open>h\<close>, and what it means for the fields of
  a subframe and of an optional pair to fit the formats \<open>Write\<close> packs them with.
\<close>

definition fits_B :: "int \<Rightarrow> bool" where
  "fits_B v = (0 \<le> v \<and> v \<le> 255)"

definition fits_I :: "int \<Rightarrow> bool" where
  "fits_I v = (0 \<le> v \<and> v \<le> 4294967295)"

definition fits_h :: "int \<Rightarrow> bool" where
  "fits_h v = (- 32768 \<le> v \<and> v \<le> 32767)"

definition subframe_fits :: "Subframe \<Rightarrow> bool" where
  "subframe_fits sf =
     (fits_h (sf_bitmap_id sf) \<and> fits_B (sf_unknown sf) \<and> fits_B (sf_subframe_id sf) \<and>
      fits_h (pt_x (sf_offset sf)) \<and> fits_h (pt_y (sf_offset sf)))"

fun pair_fits :: "int option \<Rightarrow> int option \<Rightarrow> bool" where
  "pair_fits None None = True"
| "pair_fits (Some x) (Some y) = (fits_B x \<and> fits_B y)"
| "pair_fits _ _ = False"

text \<open>
  How a leading byte of a frame is read: the number of optional bytes that follow it
  and its value once the gate has been applied.
\<close>

definition optional_bytes :: "byte \<Rightarrow> nat" where
  "optional_bytes x = (if unpack_B x AND 0x80 \<noteq> 0 then 2 else 0)"

definition masked :: "byte \<Rightarrow> int" where
  "masked x = (if unpack_B x AND 0x80 \<noteq> 0 then unpack_B x AND 0x7F else unpack_B x)"

text \<open>A frame of 128 subframes with no optional field.\<close>

definition frame128 :: Frame where
  "frame128 =
     \<lparr>frame_subframes =
        replicate 128 \<lparr>sf_bitmap_id = 0, sf_unknown = 0, sf_subframe_id = 0, sf_offset = Point 0 0\<rparr>,
      frame_unknown = 5, optional1 = None, optional2 = None, optional3 = None, optional4 = None\<rparr>"

subsection \<open>Example inputs and error kinds\<close>

text \<open>The three errors of the count checks at the end of \<open>Load\<close>.\<close>

fun count_mismatch :: "load_error \<Rightarrow> bool" where
  "count_mismatch (IncorrectAnimations a b) = True"
| "count_mismatch (IncorrectFrames a b) = True"
| "count_mismatch (IncorrectSubframes a b) = True"
| "count_mismatch e = False"

text \<open>
  A main stream with no palette and no bitmap whose animation header declares one
  animation, 5 frames and no subframe, followed by one animation of 4 frames without
  subframes and no appendix; an empty companion blob; and the animations parsed from it.
\<close>

definition prt_frames_5_of_4 :: bytes where
  "prt_frames_5_of_4 =
     tag_CPAL @ [0, 0, 0, 0] @
     [0, 0, 0, 0] @
     [1, 0, 0, 0] @ [5, 0, 0, 0] @ [0, 0, 0, 0] @ [0, 0, 0, 0] @
     [9, 0, 0, 0] @ [1, 0, 0, 0] @ [2, 0, 0, 0] @ [3, 0, 0, 0] @ [4, 0, 0, 0] @
     [5, 0, 0, 0] @ [6, 0, 0, 0] @ [7, 0, 0, 0] @ [4, 0, 0, 0] @
     [0, 1] @ [0, 2] @ [0, 3] @ [0, 4] @
     [0, 0, 0, 0]"

definition bmp_empty :: bytes where
  "bmp_empty = tag_BM @ [0, 0, 0, 0] @ [0, 0] @ [0, 0] @ [14, 0, 0, 0]"

definition anims_4_frames :: "Animation list" where
  "anims_4_frames =
     [\<lparr>anim_unknown1 = 9, anim_bounding_box = Rect 1 2 3 4, anim_offset = Point 5 6,
       anim_unknown2 = 7,
       anim_frames =
         [\<lparr>frame_subframes = [], frame_unknown = 1, optional1 = None, optional2 = None,
            optional3 = None, optional4 = None\<rparr>,
          \<lparr>frame_subframes = [], frame_unknown = 2, optional1 = None, optional2 = None,
            optional3 = None, optional4 = None\<rparr>,
          \<lparr>frame_subframes = [], frame_unknown = 3, optional1 = None, optional2 = None,
            optional3 = None, optional4 = None\<rparr>,
          \<lparr>frame_subframes = [], frame_unknown = 4, optional1 = None, optional2 = None,
            optional3 = None, optional4 = None\<rparr>],
       anim_appendix = [], anim_unknown3 = 0\<rparr>]"

text \<open>
  A main stream with one palette, whose \<open>head\<close> section announces no further tag, and
  two bitmap records: the first with palette id 0 and 16 bytes of pixels, the second with
  palette id 1, the number of palettes.
\<close>

definition prt_palette_one_past :: bytes where
  "prt_palette_one_past =
     tag_CPAL @ [1, 0, 0, 0] @
     tag_PPAL @ [0x18, 0x04, 0, 0] @ tag_head @ [4, 0, 0, 0] @ [0, 0, 0, 0] @
     [2, 0, 0, 0] @
     [8, 0, 0, 0] @ [0, 0, 0, 0] @ [2, 0, 0, 0] @ [5, 0, 0, 0] @ [1, 0] @ [0, 0] @
     [8, 0, 0, 0] @ [0, 0, 0, 0] @ [2, 0, 0, 0] @ [5, 0, 0, 0] @ [1, 0] @ [1, 0]"

subsection \<open>Containers whose fields fit their formats\<close>

text \<open>
  What \<open>Load\<close> guarantees of the values it stores: every field is in the range of
  the format it was unpacked from, a frame has at most 127 subframes and its unknown value
  is below 128, optional fields come in pairs, an appendix record has four entries
  and \<open>unknown3\<close> counts them, and a bitmap refers to a palette of the table and has
  at most \<open>2^63 - 1\<close> bytes of pixels, the largest size \<open>read\<close> accepts.
\<close>

definition color_fits :: "Color \<Rightarrow> bool" where
  "color_fits c =
     (fits_B (col_r c) \<and> fits_B (col_g c) \<and> fits_B (col_b c) \<and> fits_B (col_flags c))"

definition bitmap_fits :: "Palette list \<Rightarrow> Bitmap \<Rightarrow> bool" where
  "bitmap_fits pals b =
     (fits_I (bmp_width b) \<and> fits_I (bmp_height b) \<and> fits_h (bmp_image_type b) \<and>
      fits_h (bmp_palette_id b) \<and> 0 \<le> bmp_palette_id b \<and>
      bmp_palette_id b < int (length pals) \<and>
      bmp_palette b = pals ! nat (bmp_palette_id b) \<and>
      int (length (bmp_data b)) \<le> 9223372036854775807)"

definition frame_fits :: "Frame \<Rightarrow> bool" where
  "frame_fits f =
     (length (frame_subframes f) \<le> 127 \<and> 0 \<le> frame_unknown f \<and> frame_unknown f \<le> 127 \<and>
      pair_fits (optional1 f) (optional2 f) \<and> pair_fits (optional3 f) (optional4 f) \<and>
      list_all subframe_fits (frame_subframes f))"

definition appendix_fits :: "int list \<Rightarrow> bool" where
  "appendix_fits ap = (length ap = 4 \<and> list_all fits_I ap)"

definition animation_fits :: "Animation \<Rightarrow> bool" where
  "animation_fits a =
     (fits_I (anim_unknown1 a) \<and>
      fits_I (rect_left (anim_bounding_box a)) \<and> fits_I (rect_top (anim_bounding_box a)) \<and>
      fits_I (rect_right (anim_bounding_box a)) \<and> fits_I (rect_bottom (anim_bounding_box a)) \<and>
      fits_I (pt_x (anim_offset a)) \<and> fits_I (pt_y (anim_offset a)) \<and>
      fits_I (anim_unknown2 a) \<and>
      fits_I (int (length (anim_frames a))) \<and> list_all frame_fits (anim_frames a) \<and>
      fits_I (anim_unknown3 a) \<and> anim_unknown3 a = int (length (anim_appendix a)) \<and>
      list_all appendix_fits (anim_appendix a))"

definition container_fits :: "PRTFile \<Rightarrow> bool" where
  "container_fits c =
     (fits_I (int (length (palettes c))) \<and>
      list_all (\<lambda>p. list_all color_fits (colors p)) (palettes c) \<and>
      fits_I (int (length (bitmaps c))) \<and>
      list_all (bitmap_fits (palettes c)) (bitmaps c) \<and>
      fits_I (int (length (animations c))) \<and>
      fits_I (count_frames (animations c)) \<and>
      fits_I (count_subframes (animations c)) \<and>
      fits_I (num_optional_entries c) \<and>
      list_all animation_fits (animations c))"

subsection \<open>More example inputs\<close>

text \<open>
  A main stream with no palette and no bitmap and one animation of one frame, whose
  only subframe has bitmap id 7; and the container loaded from it.
\<close>

definition prt_subframe_id_7 :: bytes where
  "prt_subframe_id_7 =
     tag_CPAL @ [0, 0, 0, 0] @
     [0, 0, 0, 0] @
     [1, 0, 0, 0] @ [1, 0, 0, 0] @ [1, 0, 0, 0] @ [0, 0, 0, 0] @
     [9, 0, 0, 0] @ [1, 0, 0, 0] @ [2, 0, 0, 0] @ [3, 0, 0, 0] @ [4, 0, 0, 0] @
     [5, 0, 0, 0] @ [6, 0, 0, 0] @ [7, 0, 0, 0] @ [1, 0, 0, 0] @
     [1, 2] @
     [7, 0] @ [3] @ [4] @ [5, 0] @ [6, 0] @
     [0, 0, 0, 0]"

definition container_subframe_id_7 :: PRTFile where
  "container_subframe_id_7 =
     \<lparr>palettes = [], bitmaps = [],
      animations =
        [\<lparr>anim_unknown1 = 9, anim_bounding_box = Rect 1 2 3 4, anim_offset = Point 5 6,
          anim_unknown2 = 7,
          anim_frames =
            [\<lparr>frame_subframes =
                [\<lparr>sf_bitmap_id = 7, sf_unknown = 3, sf_subframe_id = 4, sf_offset = Point 5 6\<rparr>],
              frame_unknown = 2, optional1 = None, optional2 = None,
              optional3 = None, optional4 = None\<rparr>],
          anim_appendix = [], anim_unknown3 = 0\<rparr>],
      num_optional_entries = 0, extra_data = []\<rparr>"

text \<open>
  A main stream with one palette, whose \<open>head\<close> section announces no further tag, no
  bitmap and no animation; and the container loaded from it.
\<close>

definition prt_palette_head_0 :: bytes where
  "prt_palette_head_0 =
     tag_CPAL @ [1, 0, 0, 0] @
     tag_PPAL @ [0x18, 0x04, 0, 0] @ tag_head @ [4, 0, 0, 0] @ [0, 0, 0, 0] @
     [0, 0, 0, 0] @
     [0, 0, 0, 0] @ [0, 0, 0, 0] @ [0, 0, 0, 0] @ [0, 0, 0, 0]"

definition container_empty_palette :: PRTFile where
  "container_empty_palette =
     \<lparr>palettes = [\<lparr>colors = []\<rparr>], bitmaps = [], animations = [],
      num_optional_entries = 0, extra_data = []\<rparr>"

text \<open>
  A palette of 256 colours; a main stream with that palette and one bitmap of width 5
  and height 2 whose record gives the padded width 4; a companion blob with 16 bytes of
  pixel data; the container loaded from the two; and a bitmap table whose record gives
  the padded width 8, with the bitmap loaded from it.
\<close>

definition palette_example :: Palette where
  "palette_example = \<lparr>colors = replicate 256 \<lparr>col_r = 3, col_g = 2, col_b = 1, col_flags = 0\<rparr>\<rparr>"

definition prt_padded_4 :: bytes where
  "prt_padded_4 =
     tag_CPAL @ [1, 0, 0, 0] @
     tag_PPAL @ [0x18, 0x04, 0, 0] @ tag_head @ [4, 0, 0, 0] @ [1, 0, 0, 0] @
     tag_data @ [0, 4, 0, 0] @ concat (replicate 256 [1, 2, 3, 0]) @
     [1, 0, 0, 0] @
     [4, 0, 0, 0] @ [0, 0, 0, 0] @ [2, 0, 0, 0] @ [5, 0, 0, 0] @ [1, 0] @ [0, 0] @
     [0, 0, 0, 0] @ [0, 0, 0, 0] @ [0, 0, 0, 0] @ [0, 0, 0, 0]"

definition bmp_16_bytes :: bytes where
  "bmp_16_bytes =
     tag_BM @ [0, 0, 0, 0] @ [0, 0] @ [0, 0] @ [14, 0, 0, 0] @
     [1, 2, 3, 4, 5, 6, 7, 8, 9, 10, 11, 12, 13, 14, 15, 16]"

definition container_padded_4 :: PRTFile where
  "container_padded_4 =
     \<lparr>palettes = [palette_example],
      bitmaps = [\<lparr>bmp_palette = palette_example, bmp_palette_id = 0, bmp_image_type = 1,
                  bmp_width = 5, bmp_height = 2, bmp_data = [1, 2, 3, 4, 5, 6, 7, 8]\<rparr>],
      animations = [], num_optional_entries = 0, extra_data = []\<rparr>"

definition table_padded_8 :: bytes where
  "table_padded_8 =
     [1, 0, 0, 0] @
     [8, 0, 0, 0] @ [0, 0, 0, 0] @ [2, 0, 0, 0] @ [5, 0, 0, 0] @ [1, 0] @ [0, 0]"

definition bitmap_padded_8 :: Bitmap where
  "bitmap_padded_8 =
     \<lparr>bmp_palette = palette_example, bmp_palette_id = 0, bmp_image_type = 1,
      bmp_width = 5, bmp_height = 2,
      bmp_data = [1, 2, 3, 4, 5, 6, 7, 8, 9, 10, 11, 12, 13, 14, 15, 16]\<rparr>"

subsection \<open>The bytes \<open>Write\<close> produces\<close>

text \<open>
  The bytes \<open>Write\<close> sends to the main stream for each part of a container whose
  fields fit their formats. They are used to state what \<open>Load\<close> makes of them.
\<close>

definition color_bytes :: "Color \<Rightarrow> bytes" where
  "color_bytes c =
     [word_of_int (col_b c), word_of_int (col_g c), word_of_int (col_r c), word_of_int (col_flags c)]"

definition subframe_bytes :: "Subframe \<Rightarrow> bytes" where
  "subframe_bytes sf =
     le_bytes 2 (sf_bitmap_id sf mod 65536) @ [word_of_int (sf_unknown sf)] @
     [word_of_int (sf_subframe_id sf)] @ le_bytes 2 (pt_x (sf_offset sf) mod 65536) @
     le_bytes 2 (pt_y (sf_offset sf) mod 65536)"

definition appendix_bytes :: "int list \<Rightarrow> bytes" where
  "appendix_bytes ap =
     le_bytes 4 (ap ! 0) @ le_bytes 4 (ap ! 1) @ le_bytes 4 (ap ! 2) @ le_bytes 4 (ap ! 3)"

definition palette_bytes :: "Palette \<Rightarrow> bytes" where
  "palette_bytes p =
     tag_PPAL @ le_bytes 4 1048 @ tag_head @ le_bytes 4 4 @ le_bytes 4 1 @
     tag_data @ le_bytes 4 1024 @ concat (map color_bytes (colors p))"

text \<open>
  A frame: the two leading bytes, with bit \<open>0x80\<close> set when either field of the pair
  is present, then the pairs that are present, then the subframes.
\<close>

definition pair_bytes :: "int option \<Rightarrow> int option \<Rightarrow> bytes" where
  "pair_bytes a b =
     (if a \<noteq> None \<or> b \<noteq> None then [word_of_int (the a), word_of_int (the b)] else [])"

definition flagged :: "int option \<Rightarrow> int option \<Rightarrow> int \<Rightarrow> int" where
  "flagged a b v = (if a \<noteq> None \<or> b \<noteq> None then v OR 0x80 else v)"

definition frame_bytes :: "Frame \<Rightarrow> bytes" where
  "frame_bytes f =
     [word_of_int (flagged (optional1 f) (optional2 f) (int (length (frame_subframes f)))),
      word_of_int (flagged (optional3 f) (optional4 f) (frame_unknown f))] @
     pair_bytes (optional1 f) (optional2 f) @ pair_bytes (optional3 f) (optional4 f) @
     concat (map subframe_bytes (frame_subframes f))"

definition animation_header_bytes :: "Animation \<Rightarrow> bytes" where
  "animation_header_bytes a =
     le_bytes 4 (anim_unknown1 a) @
     le_bytes 4 (rect_left (anim_bounding_box a)) @ le_bytes 4 (rect_top (anim_bounding_box a)) @
     le_bytes 4 (rect_right (anim_bounding_box a)) @ le_bytes 4 (rect_bottom (anim_bounding_box a)) @
     le_bytes 4 (pt_x (anim_offset a)) @ le_bytes 4 (pt_y (anim_offset a)) @
     le_bytes 4 (anim_unknown2 a) @ le_bytes 4 (int (length (anim_frames a)))"

definition animation_bytes :: "Animation \<Rightarrow> bytes" where
  "animation_bytes a =
     animation_header_bytes a @ concat (map frame_bytes (anim_frames a)) @
     le_bytes 4 (anim_unknown3 a) @ concat (map appendix_bytes (anim_appendix a))"

definition animations_bytes :: "PRTFile \<Rightarrow> bytes" where
  "animations_bytes c =
     le_bytes 4 (int (length (animations c))) @ le_bytes 4 (count_frames (animations c)) @
     le_bytes 4 (count_subframes (animations c)) @ le_bytes 4 (num_optional_entries c) @
     concat (map animation_bytes (animations c)) @ extra_data c"

text \<open>
  The bitmap table: each record carries the padded width computed from the width and
  the offset of the bitmap's pixels in the master buffer.
\<close>

definition bitmap_bytes :: "Bitmap \<Rightarrow> nat \<Rightarrow> bytes" where
  "bitmap_bytes b off =
     le_bytes 4 ((bmp_width b + 3) AND NOT 3) @ le_bytes 4 (int off) @
     le_bytes 4 (bmp_height b) @ le_bytes 4 (bmp_width b) @
     le_bytes 2 (bmp_image_type b mod 65536) @ le_bytes 2 (bmp_palette_id b mod 65536)"

fun table_bytes :: "Bitmap list \<Rightarrow> nat \<Rightarrow> bytes" where
  "table_bytes [] off = []"
| "table_bytes (b # bs) off = bitmap_bytes b off @ table_bytes bs (off + length (bmp_data b))"

text \<open>
  What \<open>Write\<close> needs of the bitmaps beyond the ranges of their fields: every
  offset in the master buffer fits the format \<open>I\<close>
  (\<open>offsets_fit\<close>); the width leaves room for the padding, and the pixel buffer has
  the length that the padded width written to the record announces (\<open>bitmap_writable\<close>).
\<close>

fun offsets_fit :: "Bitmap list \<Rightarrow> nat \<Rightarrow> bool" where
  "offsets_fit [] off = True"
| "offsets_fit (b # bs) off = (fits_I (int off) \<and> offsets_fit bs (off + length (bmp_data b)))"

definition bitmap_writable :: "Bitmap \<Rightarrow> bool" where
  "bitmap_writable b =
     (bmp_width b \<le> 4294967292 \<and>
      int (length (bmp_data b)) = ((bmp_width b + 3) AND NOT 3) * bmp_height b)"

text \<open>
  What \<open>_LoadBitmaps\<close> needs of a companion blob to find the pixels in it: the
  14-byte header with the magic \<open>BM\<close>, and the pixel bytes at the offset \<open>data_start\<close>
  that the header gives.
\<close>

definition blob_holds :: "bytes \<Rightarrow> bytes \<Rightarrow> bool" where
  "blob_holds blob pixels =
     (14 \<le> length blob \<and> take 2 blob = tag_BM \<and>
      take (length pixels) (drop (nat (unpack_I (take 4 (drop 10 blob)))) blob) = pixels)"

text \<open>
  Modelled from the spec: \<open>bitmap.Bitmap.WriteBMPToOpenFile\<close> is not among the sources.
  The spec describes the companion blob as a 14-byte header (the magic \<open>BM\<close>, three
  ignored fields, a 32-bit \<open>dataStart\<close>) followed at \<open>dataStart\<close> by the concatenated
  pixel rows. This writer produces that header, with \<open>dataStart\<close> 14, and the pixels.
\<close>

definition minimal_blob_writer :: "bytes \<Rightarrow> bytes" where
  "minimal_blob_writer pixels =
     tag_BM @ [0, 0, 0, 0] @ [0, 0] @ [0, 0] @ [14, 0, 0, 0] @ pixels"

text \<open>The whole main stream of a container.\<close>

definition container_bytes :: "PRTFile \<Rightarrow> bytes" where
  "container_bytes c =
     tag_CPAL @ le_bytes 4 (int (length (palettes c))) @ concat (map palette_bytes (palettes c)) @
     le_bytes 4 (int (length (bitmaps c))) @ table_bytes (bitmaps c) 0 @ animations_bytes c"

subsection \<open>Example inputs for writing and loading again\<close>

text \<open>
  The palette table holding \<open>palette_example\<close> as a byte stream. A main stream made of
  it, the bitmap table \<open>table_padded_8\<close> and one animation with one frame (carrying
  \<open>optional1\<close> and \<open>optional2\<close>, and one subframe), one appendix record and two bytes
  of extra data; and the container loaded from it.
\<close>

definition palette_example_bytes :: bytes where
  "palette_example_bytes =
     tag_CPAL @ [1, 0, 0, 0] @
     tag_PPAL @ [0x18, 0x04, 0, 0] @ tag_head @ [4, 0, 0, 0] @ [1, 0, 0, 0] @
     tag_data @ [0, 4, 0, 0] @ concat (replicate 256 [1, 2, 3, 0])"

definition animations_round_trip_bytes :: bytes where
  "animations_round_trip_bytes =
     [1, 0, 0, 0] @ [1, 0, 0, 0] @ [1, 0, 0, 0] @ [1, 0, 0, 0] @
     [9, 0, 0, 0] @ [1, 0, 0, 0] @ [2, 0, 0, 0] @ [3, 0, 0, 0] @ [4, 0, 0, 0] @
     [5, 0, 0, 0] @ [6, 0, 0, 0] @ [7, 0, 0, 0] @ [1, 0, 0, 0] @
     [0x81, 5] @ [7, 9] @
     [0, 0] @ [1] @ [2] @ [3, 0] @ [0xFC, 0xFF] @
     [1, 0, 0, 0] @
     [1, 0, 0, 0] @ [2, 0, 0, 0] @ [3, 0, 0, 0] @ [4, 0, 0, 0] @
     [0xAA, 0xBB]"

definition prt_round_trip :: bytes where
  "prt_round_trip = palette_example_bytes @ table_padded_8 @ animations_round_trip_bytes"

definition animations_round_trip :: "Animation list" where
  "animations_round_trip =
     [\<lparr>anim_unknown1 = 9, anim_bounding_box = Rect 1 2 3 4, anim_offset = Point 5 6,
       anim_unknown2 = 7,
       anim_frames =
         [\<lparr>frame_subframes =
             [\<lparr>sf_bitmap_id = 0, sf_unknown = 1, sf_subframe_id = 2, sf_offset = Point 3 (- 4)\<rparr>],
           frame_unknown = 5, optional1 = Some 7, optional2 = Some 9,
           optional3 = None, optional4 = None\<rparr>],
       anim_appendix = [[1, 2, 3, 4]], anim_unknown3 = 1\<rparr>]"

definition container_round_trip :: PRTFile where
  "container_round_trip =
     \<lparr>palettes = [palette_example], bitmaps = [bitmap_padded_8],
      animations = animations_round_trip, num_optional_entries = 1, extra_data = [0xAA, 0xBB]\<rparr>"

text \<open>
  Two more bitmap tables: a bitmap of width 1 and height 1 whose record gives the padded
  width 8, and a bitmap of width 4294967295 and height 0; an animation table without
  animations; and the containers met when loading and writing them.
\<close>

definition table_padded_wide :: bytes where
  "table_padded_wide =
     [1, 0, 0, 0] @
     [8, 0, 0, 0] @ [0, 0, 0, 0] @ [1, 0, 0, 0] @ [1, 0, 0, 0] @ [1, 0] @ [0, 0]"

definition table_width_max :: bytes where
  "table_width_max =
     [1, 0, 0, 0] @
     [0, 0, 0, 0] @ [0, 0, 0, 0] @ [0, 0, 0, 0] @ [0xFF, 0xFF, 0xFF, 0xFF] @ [1, 0] @ [0, 0]"

definition animations_none_bytes :: bytes where
  "animations_none_bytes = [0, 0, 0, 0] @ [0, 0, 0, 0] @ [0, 0, 0, 0] @ [0, 0, 0, 0]"

definition container_padded_wide :: PRTFile where
  "container_padded_wide =
     \<lparr>palettes = [palette_example],
      bitmaps = [\<lparr>bmp_palette = palette_example, bmp_palette_id = 0, bmp_image_type = 1,
                  bmp_width = 1, bmp_height = 1, bmp_data = [1, 2, 3, 4, 5, 6, 7, 8]\<rparr>],
      animations = [], num_optional_entries = 0, extra_data = []\<rparr>"

definition container_padded_narrow :: PRTFile where
  "container_padded_narrow =
     \<lparr>palettes = [palette_example],
      bitmaps = [\<lparr>bmp_palette = palette_example, bmp_palette_id = 0, bmp_image_type = 1,
                  bmp_width = 1, bmp_height = 1, bmp_data = [1, 2, 3, 4]\<rparr>],
      animations = [], num_optional_entries = 0, extra_data = []\<rparr>"

definition container_width_max :: PRTFile where
  "container_width_max =
     \<lparr>palettes = [palette_example],
      bitmaps = [\<lparr>bmp_palette = palette_example, bmp_palette_id = 0, bmp_image_type = 1,
                  bmp_width = 4294967295, bmp_height = 0, bmp_data = []\<rparr>],
      animations = [], num_optional_entries = 0, extra_data = []\<rparr>"

section \<open>Properties\<close>

subsection \<open>Packing and unpacking are inverse\<close>

lemma uint_byte_bounds: "0 \<le> uint (x::byte) \<and> uint x < 256"
  using uint_lt2p [of x] by simp

lemma le_uint_bounds: "0 \<le> le_uint bs \<and> le_uint bs < 256 ^ length bs"
proof (induction bs)
  case Nil
  then show ?case by simp
next
  case (Cons x xs)
  have "0 \<le> uint x" "uint x < 256" using uint_byte_bounds [of x] by simp_all
  with Cons show ?case by simp
qed

lemma length_le_bytes [simp]: "length (le_bytes n v) = n"
  by (induction n arbitrary: v) simp_all

lemma le_uint_le_bytes: "0 \<le> v \<Longrightarrow> v < 256 ^ n \<Longrightarrow> le_uint (le_bytes n v) = v"
proof (induction n arbitrary: v)
  case 0
  then show ?case by simp
next
  case (Suc n)
  have "v div 256 < 256 ^ n" using Suc.prems by (simp add: div_less_iff_less_mult)
  moreover have "0 \<le> v div 256" using Suc.prems by simp
  ultimately have "le_uint (le_bytes n (v div 256)) = v div 256" by (rule Suc.IH [rotated])
  moreover have "uint (word_of_int (v mod 256) :: byte) = v mod 256"
    by (simp add: uint_word_of_int)
  ultimately show ?case by simp
qed

lemma le_bytes_le_uint: "le_bytes (length bs) (le_uint bs) = bs"
proof (induction bs)
  case Nil
  then show ?case by simp
next
  case (Cons x xs)
  have b: "0 \<le> uint x" "uint x < 256" using uint_byte_bounds [of x] by simp_all
  then have "(uint x + 256 * le_uint xs) mod 256 = uint x"
    and "(uint x + 256 * le_uint xs) div 256 = le_uint xs" by simp_all
  with Cons show ?case by simp
qed

lemma pack_B_unpack_B: "pack_B (unpack_B x) = Inr [x]"
  using uint_byte_bounds [of x] by (simp add: pack_B_def unpack_B_def)

lemma emit_Inr [simp]: "emit (Inr bs) = (bs, None)"
  by (simp add: emit_def)

lemma emit_Inl [simp]: "emit (Inl e) = ([], Some e)"
  by (simp add: emit_def)

lemma seqw_None [simp]: "seqw (out, None) b = (out @ fst b, snd b)"
  by (simp add: seqw_def)

lemma seqw_Some [simp]: "seqw (out, Some e) b = (out, Some e)"
  by (simp add: seqw_def)

subsection \<open>Colour entries\<close>

text \<open>
  C2. An entry \<open>(b, g, r, flags)\<close> of the stream is loaded as the colour with red \<open>r\<close>,
  green \<open>g\<close>, blue \<open>b\<close> and the same flags, so \<open>(10, 20, 30, 40)\<close> gives red 30,
  green 20, blue 10, flags 40. A colour whose four fields are 8-bit values is written
  as the bytes blue, green, red, flags, and writing a loaded colour gives back the four
  bytes it was loaded from.
\<close>

theorem color_channel_swap:
  "load_colors 1 cols (b # g # r # f # rest) =
     Inr (cols @ [\<lparr>col_r = uint r, col_g = uint g, col_b = uint b, col_flags = uint f\<rparr>], rest)
   \<and> color_of_entry [10, 20, 30, 40] = \<lparr>col_r = 30, col_g = 20, col_b = 10, col_flags = 40\<rparr>
   \<and> (0 \<le> col_r c \<and> col_r c \<le> 255 \<and> 0 \<le> col_g c \<and> col_g c \<le> 255 \<and>
      0 \<le> col_b c \<and> col_b c \<le> 255 \<and> 0 \<le> col_flags c \<and> col_flags c \<le> 255 \<longrightarrow>
      write_color c =
        ([word_of_int (col_b c), word_of_int (col_g c), word_of_int (col_r c),
          word_of_int (col_flags c)], None))
   \<and> write_color (color_of_entry [b, g, r, f]) = ([b, g, r, f], None)"
proof -
  have "load_colors (Suc 0) cols (b # g # r # f # rest) =
     Inr (cols @ [\<lparr>col_r = uint r, col_g = uint g, col_b = uint b, col_flags = uint f\<rparr>], rest)"
    by (simp add: ReadAndUnpack_def color_of_entry_def unpack_B_def)
  moreover have "color_of_entry [10, 20, 30, 40] =
      \<lparr>col_r = 30, col_g = 20, col_b = 10, col_flags = 40\<rparr>"
    by (simp add: color_of_entry_def unpack_B_def)
  moreover have "write_color (color_of_entry [b, g, r, f]) = ([b, g, r, f], None)"
    by (simp add: write_color_def color_of_entry_def pack_B_unpack_B)
  moreover have "0 \<le> col_r c \<and> col_r c \<le> 255 \<and> 0 \<le> col_g c \<and> col_g c \<le> 255 \<and>
      0 \<le> col_b c \<and> col_b c \<le> 255 \<and> 0 \<le> col_flags c \<and> col_flags c \<le> 255 \<longrightarrow>
      write_color c =
        ([word_of_int (col_b c), word_of_int (col_g c), word_of_int (col_r c),
          word_of_int (col_flags c)], None)"
    by (simp add: write_color_def pack_B_def)
  ultimately show ?thesis by simp
qed

theorem color_channel_swap_witness:
  "(0::int) \<le> 30 \<and> (30::int) \<le> 255 \<and> (0::int) \<le> 20 \<and> (20::int) \<le> 255 \<and>
   (0::int) \<le> 10 \<and> (10::int) \<le> 255 \<and> (0::int) \<le> 40 \<and> (40::int) \<le> 255 \<and>
   write_color \<lparr>col_r = 30, col_g = 20, col_b = 10, col_flags = 40\<rparr> = ([10, 20, 30, 40], None)"
  using color_channel_swap [of _ _ _ _ _ _ "\<lparr>col_r = 30, col_g = 20, col_b = 10, col_flags = 40\<rparr>"]
  by simp

subsection \<open>Frames with one optional field of a pair\<close>

text \<open>
  C4. The frame with \<open>optional1 = 3\<close> and \<open>optional2\<close> absent: \<open>Write\<close> sets bit \<open>0x80\<close>
  of the subframe-count byte and writes the two leading bytes, then \<open>int(None)\<close>
  raises a \<open>TypeError\<close> and the two optional bytes are never written.
\<close>

theorem write_frame_half_pair:
  "write_frame \<lparr>frame_subframes = [], frame_unknown = 5, optional1 = Some 3, optional2 = None,
                optional3 = None, optional4 = None\<rparr> = ([0x80, 5], Some TypeError)"
  by (simp add: write_frame_def pack_optional_pair_def py_int_def pack_B_def)

theorem write_frame_half_pair_witness:
  "fst (write_frame \<lparr>frame_subframes = [], frame_unknown = 5, optional1 = Some 3,
                     optional2 = None, optional3 = None, optional4 = None\<rparr>) = [0x80, 5]
   \<and> snd (write_frame \<lparr>frame_subframes = [], frame_unknown = 5, optional1 = Some 3,
                       optional2 = None, optional3 = None, optional4 = None\<rparr>) = Some TypeError"
  using write_frame_half_pair by simp

subsection \<open>Reading, and bits of Python integers\<close>

lemma ReadAndUnpack_ok: "n \<le> length s \<Longrightarrow> ReadAndUnpack n s = Inr (take n s, drop n s)"
  by (simp add: ReadAndUnpack_def)

lemma ReadAndUnpack_short:
  "length s < n \<Longrightarrow> ReadAndUnpack n s = Inl (PRTLoadError (RanOutOfData n (length s)))"
  by (simp add: ReadAndUnpack_def)

lemma ReadAndUnpack_Inr:
  "ReadAndUnpack n s = Inr (d, s') \<Longrightarrow> d = take n s \<and> s' = drop n s \<and> n \<le> length s"
  by (auto simp: ReadAndUnpack_def Let_def split: if_splits)

subsection \<open>Frames\<close>

lemma load_subframes_Inr:
  "load_subframes k n s = Inr (sfs, n', s') \<Longrightarrow>
     length sfs = k \<and> n' = n + int k \<and> s' = drop (8 * k) s \<and> 8 * k \<le> length s"
proof (induction k arbitrary: n s sfs)
  case 0
  then show ?case by simp
next
  case (Suc k)
  from Suc.prems obtain d s1 sfs1 where
    r: "ReadAndUnpack 8 s = Inr (d, s1)" and
    l: "load_subframes k (n + 1) s1 = Inr (sfs1, n', s')" and
    e: "sfs = subframe_of d # sfs1"
    by (auto split: sum.splits prod.splits)
  from ReadAndUnpack_Inr [OF r] Suc.IH [OF l] e show ?case
    by (auto simp: add.commute)
qed

lemma load_subframes_ok:
  "8 * k \<le> length s \<Longrightarrow> \<exists>sfs. load_subframes k n s = Inr (sfs, n + int k, drop (8 * k) s)"
proof (induction k arbitrary: n s)
  case 0
  then show ?case by simp
next
  case (Suc k)
  then have "8 \<le> length s" and "8 * k \<le> length (drop 8 s)" by simp_all
  from Suc.IH [OF this(2), of "n + 1"] this(1) show ?case
    by (auto simp: ReadAndUnpack_ok add.commute)
qed

lemma and_0x7F: "(v::int) AND 0x7F = v mod 128"
  using take_bit_eq_mask [of 7 v] by (simp add: take_bit_eq_mod mask_eq_exp_minus_1)

lemma and_0x80_zero: "0 \<le> v \<Longrightarrow> v < 256 \<Longrightarrow> ((v::int) AND 0x80 = 0) = (v < 128)"
proof -
  assume a: "0 \<le> v" "v < 256"
  have "(v AND 2 ^ 7 = 0) = (\<not> bit v 7)" by (rule and_exp_eq_0_iff_not_bit)
  moreover have "bit v 7 = odd (v div 128)" by (simp add: bit_iff_odd)
  moreover have "odd (v div 128) = (128 \<le> v)" using a by presburger
  ultimately show ?thesis by auto
qed

lemma or_0x80: "0 \<le> v \<Longrightarrow> v < 128 \<Longrightarrow> (v::int) OR 0x80 = v + 128"
proof -
  assume a: "0 \<le> v" "v < 128"
  then have "v AND 0x80 = 0" by (simp add: and_0x80_zero)
  then show ?thesis by (simp add: disjunctive_add_eq_or)
qed

lemma load_optional_pair_Inr:
  "load_optional_pair v s = Inr (v', o1, o2, s') \<Longrightarrow>
     (if v AND 0x80 \<noteq> 0
      then v' = v AND 0x7F \<and> o1 = Some (unpack_B (s ! 0)) \<and> o2 = Some (unpack_B (s ! 1)) \<and>
           s' = drop 2 s \<and> 2 \<le> length s
      else v' = v \<and> o1 = None \<and> o2 = None \<and> s' = s)"
  by (auto simp: load_optional_pair_def split: if_splits sum.splits prod.splits dest!: ReadAndUnpack_Inr)

lemma load_frame_Inr:
  assumes "load_frame n (a # b # rest) = Inr (f, n', s')"
  shows "(unpack_B a AND 0x80 \<noteq> 0 \<longrightarrow>
            optional1 f = Some (unpack_B (rest ! 0)) \<and> optional2 f = Some (unpack_B (rest ! 1)) \<and>
            int (length (frame_subframes f)) = unpack_B a AND 0x7F)
       \<and> (unpack_B a AND 0x80 = 0 \<longrightarrow>
            optional1 f = None \<and> optional2 f = None \<and>
            int (length (frame_subframes f)) = unpack_B a)
       \<and> (unpack_B b AND 0x80 \<noteq> 0 \<longrightarrow>
            optional3 f = Some (unpack_B (rest ! optional_bytes a)) \<and>
            optional4 f = Some (unpack_B (rest ! (optional_bytes a + 1))) \<and>
            frame_unknown f = unpack_B b AND 0x7F)
       \<and> (unpack_B b AND 0x80 = 0 \<longrightarrow>
            optional3 f = None \<and> optional4 f = None \<and> frame_unknown f = unpack_B b)
       \<and> n' = n + int (length (frame_subframes f))
       \<and> s' = drop (optional_bytes a + optional_bytes b + 8 * length (frame_subframes f)) rest
       \<and> optional_bytes a + optional_bytes b + 8 * length (frame_subframes f) \<le> length rest"
proof -
  from assms obtain c o1 o2 s2 u o3 o4 s3 sfs where
    p1: "load_optional_pair (unpack_B a) rest = Inr (c, o1, o2, s2)" and
    p2: "load_optional_pair (unpack_B b) s2 = Inr (u, o3, o4, s3)" and
    ls: "load_subframes (nat c) n s3 = Inr (sfs, n', s')" and
    f: "f = \<lparr>frame_subframes = sfs, frame_unknown = u, optional1 = o1, optional2 = o2,
             optional3 = o3, optional4 = o4\<rparr>"
    by (auto simp: load_frame_def ReadAndUnpack_def split: sum.splits prod.splits)
  have c0: "0 \<le> c"
    using load_optional_pair_Inr [OF p1] uint_byte_bounds [of a]
    by (auto simp: unpack_B_def and_0x7F split: if_splits)
  note A = load_optional_pair_Inr [OF p1] and B = load_optional_pair_Inr [OF p2]
    and C = load_subframes_Inr [OF ls]
  show ?thesis
    using A B C c0 f
    apply (simp add: optional_bytes_def split: if_splits)
    apply (auto simp: nth_drop)
    done
qed


lemma masked_nonneg: "0 \<le> masked x"
  using uint_byte_bounds [of x] by (simp add: masked_def unpack_B_def and_0x7F)

lemma load_optional_pair_ok:
  "optional_bytes x \<le> length s \<Longrightarrow>
   load_optional_pair (unpack_B x) s =
     Inr (masked x,
          if unpack_B x AND 0x80 \<noteq> 0 then Some (unpack_B (s ! 0)) else None,
          if unpack_B x AND 0x80 \<noteq> 0 then Some (unpack_B (s ! 1)) else None,
          drop (optional_bytes x) s)"
  by (auto simp: load_optional_pair_def optional_bytes_def masked_def ReadAndUnpack_def)

lemma load_frame_ok:
  assumes "optional_bytes a + optional_bytes b + 8 * nat (masked a) \<le> length rest"
  shows "\<exists>f. load_frame n (a # b # rest) =
           Inr (f, n + masked a, drop (optional_bytes a + optional_bytes b + 8 * nat (masked a)) rest)"
proof -
  have 1: "optional_bytes a \<le> length rest" using assms by simp
  have 2: "optional_bytes b \<le> length (drop (optional_bytes a) rest)" using assms by simp
  have 3: "8 * nat (masked a) \<le> length (drop (optional_bytes b) (drop (optional_bytes a) rest))"
    using assms by simp
  from load_subframes_ok [OF 3, of n] obtain sfs where
    "load_subframes (nat (masked a)) n (drop (optional_bytes b) (drop (optional_bytes a) rest)) =
       Inr (sfs, n + int (nat (masked a)),
            drop (8 * nat (masked a)) (drop (optional_bytes b) (drop (optional_bytes a) rest)))"
    by blast
  then show ?thesis
    using masked_nonneg [of a]
    by (simp add: load_frame_def ReadAndUnpack_ok load_optional_pair_ok [OF 1]
        load_optional_pair_ok [OF 2] add.commute add.left_commute)
qed

text \<open>
  C3. The two leading bytes of a frame are gated independently. When bit \<open>0x80\<close> of
  the subframe-count byte is set, the bit is cleared and the next two bytes are
  \<open>optional1\<close> and \<open>optional2\<close>; otherwise both are \<open>None\<close>. When bit \<open>0x80\<close> of the
  unknown byte is set, it is cleared and the two bytes after that are \<open>optional3\<close> and
  \<open>optional4\<close>; otherwise both are \<open>None\<close>. The number of subframe records read is
  the count after masking, eight bytes each, and the frame is read whenever the stream
  holds that many bytes.
\<close>

theorem load_frame_optional_gating:
  "(load_frame n (a # b # rest) = Inr (f, n', s') \<longrightarrow>
      (unpack_B a AND 0x80 \<noteq> 0 \<longrightarrow>
         optional1 f = Some (unpack_B (rest ! 0)) \<and> optional2 f = Some (unpack_B (rest ! 1)) \<and>
         int (length (frame_subframes f)) = unpack_B a AND 0x7F)
    \<and> (unpack_B a AND 0x80 = 0 \<longrightarrow>
         optional1 f = None \<and> optional2 f = None \<and>
         int (length (frame_subframes f)) = unpack_B a)
    \<and> (unpack_B b AND 0x80 \<noteq> 0 \<longrightarrow>
         optional3 f = Some (unpack_B (rest ! optional_bytes a)) \<and>
         optional4 f = Some (unpack_B (rest ! (optional_bytes a + 1))) \<and>
         frame_unknown f = unpack_B b AND 0x7F)
    \<and> (unpack_B b AND 0x80 = 0 \<longrightarrow>
         optional3 f = None \<and> optional4 f = None \<and> frame_unknown f = unpack_B b)
    \<and> n' = n + int (length (frame_subframes f))
    \<and> s' = drop (optional_bytes a + optional_bytes b + 8 * length (frame_subframes f)) rest
    \<and> optional_bytes a + optional_bytes b + 8 * length (frame_subframes f) \<le> length rest)
   \<and> (optional_bytes a + optional_bytes b + 8 * nat (masked a) \<le> length rest \<longrightarrow>
       (\<exists>g. load_frame n (a # b # rest) =
          Inr (g, n + masked a,
               drop (optional_bytes a + optional_bytes b + 8 * nat (masked a)) rest)))"
  using load_frame_Inr [of n a b rest f n' s'] load_frame_ok [of a b rest n] by blast

theorem load_frame_optional_gating_witness:
  "load_frame 0 [0x81, 0x85, 7, 9, 11, 13, 0xFF, 0xFF, 1, 2, 3, 0, 0xFC, 0xFF] =
     Inr (\<lparr>frame_subframes =
             [\<lparr>sf_bitmap_id = - 1, sf_unknown = 1, sf_subframe_id = 2, sf_offset = Point 3 (- 4)\<rparr>],
           frame_unknown = 5, optional1 = Some 7, optional2 = Some 9,
           optional3 = Some 11, optional4 = Some 13\<rparr>, 1, [])
   \<and> unpack_B 0x81 AND 0x80 \<noteq> 0 \<and> unpack_B 0x81 AND 0x7F = 1
   \<and> unpack_B 0x85 AND 0x80 \<noteq> 0 \<and> unpack_B 0x85 AND 0x7F = 5"
proof -
  have e: "load_frame 0 [0x81, 0x85, 7, 9, 11, 13, 0xFF, 0xFF, 1, 2, 3, 0, 0xFC, 0xFF] =
     Inr (\<lparr>frame_subframes =
             [\<lparr>sf_bitmap_id = - 1, sf_unknown = 1, sf_subframe_id = 2, sf_offset = Point 3 (- 4)\<rparr>],
           frame_unknown = 5, optional1 = Some 7, optional2 = Some 9,
           optional3 = Some 11, optional4 = Some 13\<rparr>, 1, [])"
    by code_simp
  from load_frame_optional_gating [of 0 "0x81" "0x85" "[7, 9, 11, 13, 0xFF, 0xFF, 1, 2, 3, 0, 0xFC, 0xFF]", THEN conjunct1, rule_format, OF e]
  show ?thesis using e by (simp add: unpack_B_def)
qed

subsection \<open>Writing frames\<close>

lemma pack_B_fits: "fits_B v \<Longrightarrow> pack_B v = Inr [word_of_int v]"
  by (simp add: fits_B_def pack_B_def)

lemma pack_I_fits: "fits_I v \<Longrightarrow> pack_I v = Inr (le_bytes 4 v)"
  by (simp add: fits_I_def pack_I_def)

lemma pack_h_fits: "fits_h v \<Longrightarrow> pack_h v = Inr (le_bytes 2 (v mod 65536))"
  by (simp add: fits_h_def pack_h_def)

lemma unpack_B_word_of_int: "fits_B v \<Longrightarrow> unpack_B (word_of_int v) = v"
  by (simp add: fits_B_def unpack_B_def uint_word_of_int)

lemma write_each_ok:
  "\<forall>x\<in>set xs. snd (f x) = None \<Longrightarrow> write_each f xs = (concat (map (\<lambda>x. fst (f x)) xs), None)"
proof (induction xs)
  case Nil
  then show ?case by simp
next
  case (Cons x xs)
  then have "snd (f x) = None" by simp
  moreover from Cons have "write_each f xs = (concat (map (\<lambda>x. fst (f x)) xs), None)" by simp
  ultimately show ?case by (simp add: seqw_def)
qed

lemma write_subframe_fits: "subframe_fits sf \<Longrightarrow> snd (write_subframe sf) = None"
  by (simp add: subframe_fits_def write_subframe_def pack_B_fits pack_h_fits)

lemma fits_B_or_0x80: "fits_B v \<Longrightarrow> fits_B (v OR 0x80)"
  using OR_upper [of v 8 128] by (simp add: fits_B_def)

lemma write_optional_pair_fits:
  "pair_fits a b \<Longrightarrow> a \<noteq> None \<or> b \<noteq> None \<Longrightarrow>
     emit (pack_optional_pair a b) = ([word_of_int (the a), word_of_int (the b)], None)"
  by (cases a; cases b) (simp_all add: pack_optional_pair_def py_int_def pack_B_fits)

lemma write_frame_leading:
  assumes "optional1 f = None" "optional2 f = None"
    and "fits_B (frame_unknown f)" "pair_fits (optional3 f) (optional4 f)"
    and "list_all subframe_fits (frame_subframes f)"
    and "length (frame_subframes f) \<le> 255"
  shows "\<exists>out. write_frame f = (word_of_int (int (length (frame_subframes f))) # out, None)"
proof -
  have n: "fits_B (int (length (frame_subframes f)))" using assms(6) by (simp add: fits_B_def)
  have s: "write_each write_subframe (frame_subframes f) =
      (concat (map (\<lambda>x. fst (write_subframe x)) (frame_subframes f)), None)"
    using assms(5) by (intro write_each_ok) (simp add: list_all_iff write_subframe_fits)
  show ?thesis
  proof (cases "optional3 f \<noteq> None \<or> optional4 f \<noteq> None")
    case True
    with assms n s show ?thesis
      by (simp add: write_frame_def pack_B_fits fits_B_or_0x80 write_optional_pair_fits)
  next
    case False
    with assms n s show ?thesis
      by (simp add: write_frame_def pack_B_fits)
  qed
qed

lemma byte_count_high:
  assumes "128 \<le> n" "n \<le> 255"
  shows "unpack_B (word_of_int n) = n \<and> unpack_B (word_of_int n) AND 0x80 \<noteq> 0 \<and>
         masked (word_of_int n) = n - 128"
proof -
  have u: "unpack_B (word_of_int n) = n"
    using assms by (simp add: unpack_B_word_of_int fits_B_def)
  have h: "n AND 0x80 \<noteq> 0"
    using assms and_0x80_zero [of n] by simp
  have m: "n mod 128 = n - 128" using assms by presburger
  show ?thesis using h m by (simp add: u masked_def and_0x7F)
qed

lemma byte_count_low:
  assumes "0 \<le> n" "n \<le> 127"
  shows "unpack_B (word_of_int n) = n \<and> unpack_B (word_of_int n) AND 0x80 = 0 \<and>
         masked (word_of_int n) = n"
proof -
  have u: "unpack_B (word_of_int n) = n"
    using assms by (simp add: unpack_B_word_of_int fits_B_def)
  have h: "n AND 0x80 = 0"
    using assms and_0x80_zero [of n] by simp
  show ?thesis using h by (simp add: u masked_def)
qed


lemma write_frame_too_many:
  assumes "optional1 f = None" "optional2 f = None" "256 \<le> length (frame_subframes f)"
  shows "write_frame f = ([], Some StructError)"
  using assms by (simp add: write_frame_def pack_B_def Let_def)

text \<open>
  C10. A frame without \<open>optional1\<close> and \<open>optional2\<close> whose other fields fit their
  formats: with 128 to 255 subframes \<open>Write\<close> raises nothing and the subframe-count
  byte it writes is the length, with bit \<open>0x80\<close> set, so that the count read back
  after masking is 128 less than the length. With at most 127 subframes the bit is
  clear and the byte is the count. From 256 subframes on \<open>struct.pack\<close> raises.
\<close>

theorem write_frame_count_overflow:
  assumes "optional1 f = None" "optional2 f = None"
    and "fits_B (frame_unknown f)" "pair_fits (optional3 f) (optional4 f)"
    and "list_all subframe_fits (frame_subframes f)"
  shows "(128 \<le> length (frame_subframes f) \<and> length (frame_subframes f) \<le> 255 \<longrightarrow>
           (\<exists>b out. write_frame f = (b # out, None) \<and>
              unpack_B b = int (length (frame_subframes f)) \<and>
              unpack_B b AND 0x80 \<noteq> 0 \<and>
              masked b = int (length (frame_subframes f)) - 128))
       \<and> (length (frame_subframes f) \<le> 127 \<longrightarrow>
           (\<exists>b out. write_frame f = (b # out, None) \<and>
              unpack_B b = int (length (frame_subframes f)) \<and>
              unpack_B b AND 0x80 = 0 \<and>
              masked b = int (length (frame_subframes f))))
       \<and> (256 \<le> length (frame_subframes f) \<longrightarrow> write_frame f = ([], Some StructError))"
proof -
  define n where "n = int (length (frame_subframes f))"
  have high: "\<exists>b out. write_frame f = (b # out, None) \<and> unpack_B b = n \<and>
      unpack_B b AND 0x80 \<noteq> 0 \<and> masked b = n - 128"
    if r: "128 \<le> length (frame_subframes f)" "length (frame_subframes f) \<le> 255"
  proof -
    from write_frame_leading [OF assms r(2)] obtain out where
      w: "write_frame f = (word_of_int n # out, None)" unfolding n_def by blast
    have "128 \<le> n" "n \<le> 255" using r by (simp_all add: n_def)
    from byte_count_high [OF this] w show ?thesis by blast
  qed
  have low: "\<exists>b out. write_frame f = (b # out, None) \<and> unpack_B b = n \<and>
      unpack_B b AND 0x80 = 0 \<and> masked b = n"
    if r: "length (frame_subframes f) \<le> 127"
  proof -
    from r have "length (frame_subframes f) \<le> 255" by simp
    from write_frame_leading [OF assms this] obtain out where
      w: "write_frame f = (word_of_int n # out, None)" unfolding n_def by blast
    have "0 \<le> n" "n \<le> 127" using r by (simp_all add: n_def)
    from byte_count_low [OF this] w show ?thesis by blast
  qed
  have many: "write_frame f = ([], Some StructError)" if "256 \<le> length (frame_subframes f)"
    using write_frame_too_many [OF assms(1,2) that] .
  from high low many show ?thesis unfolding n_def by blast
qed


theorem write_frame_count_overflow_witness:
  "optional1 frame128 = None \<and> optional2 frame128 = None \<and> fits_B (frame_unknown frame128) \<and>
   pair_fits (optional3 frame128) (optional4 frame128) \<and>
   list_all subframe_fits (frame_subframes frame128) \<and>
   length (frame_subframes frame128) = 128 \<and>
   (\<exists>b out. write_frame frame128 = (b # out, None) \<and> unpack_B b = 128 \<and>
      unpack_B b AND 0x80 \<noteq> 0 \<and> masked b = 0)"
proof -
  have h: "optional1 frame128 = None" "optional2 frame128 = None" "fits_B (frame_unknown frame128)"
    "pair_fits (optional3 frame128) (optional4 frame128)"
    "list_all subframe_fits (frame_subframes frame128)"
    by (simp_all add: frame128_def fits_B_def fits_h_def subframe_fits_def list_all_iff)
  have l: "length (frame_subframes frame128) = 128"
    by (simp add: frame128_def)
  from write_frame_count_overflow [OF h, THEN conjunct1] l
  have "\<exists>b out. write_frame frame128 = (b # out, None) \<and> unpack_B b = 128 \<and>
      unpack_B b AND 0x80 \<noteq> 0 \<and> masked b = 0"
    by simp
  with h l show ?thesis by blast
qed

subsection \<open>Header counts\<close>

lemma load_frame_count:
  "load_frame n s = Inr (f, n', s') \<Longrightarrow> n' = n + int (length (frame_subframes f))"
  by (auto simp: load_frame_def split: sum.splits prod.splits dest!: load_subframes_Inr)

lemma load_frames_Inr:
  "load_frames j nf nsf s = Inr (fs, nf', nsf', s') \<Longrightarrow>
     length fs = j \<and> nf' = nf + int j \<and>
     nsf' = nsf + (\<Sum>f\<leftarrow>fs. int (length (frame_subframes f)))"
proof (induction j arbitrary: nf nsf s fs)
  case 0
  then show ?case by simp
next
  case (Suc j)
  from Suc.prems obtain f n1 s1 fs1 where
    a: "load_frame nsf s = Inr (f, n1, s1)" and
    b: "load_frames j (nf + 1) n1 s1 = Inr (fs1, nf', nsf', s')" and
    c: "fs = f # fs1"
    by (auto split: sum.splits prod.splits)
  from load_frame_count [OF a] Suc.IH [OF b] c show ?case by simp
qed

lemma load_appendix_Inr:
  "load_appendix j na s = Inr (aps, na', s') \<Longrightarrow> length aps = j \<and> na' = na + int j"
proof (induction j arbitrary: na s aps)
  case 0
  then show ?case by simp
next
  case (Suc j)
  from Suc.prems obtain d s1 aps1 where
    b: "load_appendix j (na + 1) s1 = Inr (aps1, na', s')" and
    c: "aps = appendix_of d # aps1"
    by (auto split: sum.splits prod.splits)
  from Suc.IH [OF b] c show ?case by simp
qed

lemma load_animation_count:
  assumes "load_animation nf nsf na s = Inr (a, nf', nsf', na', s')"
  shows "nf' = nf + int (length (anim_frames a)) \<and>
         nsf' = nsf + (\<Sum>f\<leftarrow>anim_frames a. int (length (frame_subframes f)))"
proof -
  from assms obtain d s1 fs s2 where
    f: "load_frames (nat (unpack_I (take 4 (drop 32 d)))) nf nsf s1 = Inr (fs, nf', nsf', s2)" and
    a: "anim_frames a = fs"
    by (auto simp: load_animation_def split: sum.splits prod.splits)
  from load_frames_Inr [OF f] a show ?thesis by simp
qed

lemma load_animations_Inr:
  "load_animations i nf nsf na s = Inr (anims, nf', nsf', na', s') \<Longrightarrow>
     length anims = i \<and> nf' = nf + count_frames anims \<and> nsf' = nsf + count_subframes anims"
proof (induction i arbitrary: nf nsf na s anims)
  case 0
  then show ?case by (simp add: count_frames_def count_subframes_def)
next
  case (Suc i)
  from Suc.prems obtain a nf1 nsf1 na1 s1 as where
    a: "load_animation nf nsf na s = Inr (a, nf1, nsf1, na1, s1)" and
    b: "load_animations i nf1 nsf1 na1 s1 = Inr (as, nf', nsf', na', s')" and
    c: "anims = a # as"
    by (auto split: sum.splits prod.splits)
  from load_animation_count [OF a] Suc.IH [OF b] c show ?case
    by (simp add: count_frames_def count_subframes_def)
qed

lemma LoadAnimations_header:
  assumes "16 \<le> length s"
  shows "LoadAnimations s =
     (case load_animations (nat (unpack_I (take 4 s))) 0 0 0 (drop 16 s) of
        Inl e \<Rightarrow> Inl e
      | Inr (anims, nlf, nlsf, nla, s5) \<Rightarrow>
          if int (length anims) \<noteq> unpack_I (take 4 s)
          then Inl (PRTLoadError (IncorrectAnimations nla (unpack_I (take 4 s))))
          else if nlf \<noteq> unpack_I (take 4 (drop 4 s))
          then Inl (PRTLoadError (IncorrectFrames nlf (unpack_I (take 4 (drop 4 s)))))
          else if nlsf \<noteq> unpack_I (take 4 (drop 8 s))
          then Inl (PRTLoadError (IncorrectSubframes nlsf nlsf))
          else Inr (anims, unpack_I (take 4 (drop 12 s)), s5))"
  using assms by (simp add: LoadAnimations_def ReadAndUnpack_def Let_def add.commute)

text \<open>
  C5. Once the two tables and the animation records have been parsed, a header count
  that differs from the parsed total (the number of animations, the frames summed over
  the animations, the subframes summed over the frames) makes \<open>Load\<close> fail with one of
  the three count errors; and a \<open>Load\<close> that succeeds has all three totals equal to
  the header. A header that declares 5 frames over animations holding 4 is refused.
\<close>

theorem load_count_validation:
  assumes "LoadPalettes prt = Inr (pals, s1)"
    and "LoadBitmaps bmp pals s1 = Inr (bms, s2)"
    and "16 \<le> length s2"
  shows "(load_animations (nat (unpack_I (take 4 s2))) 0 0 0 (drop 16 s2) = Inr (anims, nf, nsf, na, s3) \<and>
          (int (length anims) \<noteq> unpack_I (take 4 s2) \<or>
           count_frames anims \<noteq> unpack_I (take 4 (drop 4 s2)) \<or>
           count_subframes anims \<noteq> unpack_I (take 4 (drop 8 s2))) \<longrightarrow>
          (\<exists>e. Load prt bmp = Inl (PRTLoadError e) \<and> count_mismatch e))
       \<and> (Load prt bmp = Inr c \<longrightarrow>
            int (length (animations c)) = unpack_I (take 4 s2) \<and>
            count_frames (animations c) = unpack_I (take 4 (drop 4 s2)) \<and>
            count_subframes (animations c) = unpack_I (take 4 (drop 8 s2)))"
proof -
  have A: "\<exists>e. Load prt bmp = Inl (PRTLoadError e) \<and> count_mismatch e"
    if l: "load_animations (nat (unpack_I (take 4 s2))) 0 0 0 (drop 16 s2) = Inr (anims, nf, nsf, na, s3)"
    and h: "int (length anims) \<noteq> unpack_I (take 4 s2) \<or>
           count_frames anims \<noteq> unpack_I (take 4 (drop 4 s2)) \<or>
           count_subframes anims \<noteq> unpack_I (take 4 (drop 8 s2))"
  proof -
    from load_animations_Inr [OF l] have n: "nf = count_frames anims" "nsf = count_subframes anims"
      by simp_all
    have "\<exists>e. LoadAnimations s2 = Inl (PRTLoadError e) \<and> count_mismatch e"
      using h n l by (auto simp: LoadAnimations_header [OF assms(3)])
    then show ?thesis
      using assms(1,2) by (auto simp: Load_def)
  qed
  have B: "int (length (animations c)) = unpack_I (take 4 s2) \<and>
            count_frames (animations c) = unpack_I (take 4 (drop 4 s2)) \<and>
            count_subframes (animations c) = unpack_I (take 4 (drop 8 s2))"
    if "Load prt bmp = Inr c"
  proof -
    from that assms(1,2) obtain as no ex where
      la: "LoadAnimations s2 = Inr (as, no, ex)" and c: "animations c = as"
      by (auto simp: Load_def split: sum.splits prod.splits)
    from la obtain nf nsf na s3 where
      l: "load_animations (nat (unpack_I (take 4 s2))) 0 0 0 (drop 16 s2) = Inr (as, nf, nsf, na, s3)"
      and e: "int (length as) = unpack_I (take 4 s2)" "nf = unpack_I (take 4 (drop 4 s2))"
        "nsf = unpack_I (take 4 (drop 8 s2))"
      by (auto simp: LoadAnimations_header [OF assms(3)] split: sum.splits prod.splits if_splits)
    from load_animations_Inr [OF l] e c show ?thesis by simp
  qed
  from A B show ?thesis by blast
qed

theorem load_count_validation_witness:
  "LoadPalettes prt_frames_5_of_4 = Inr ([], drop 8 prt_frames_5_of_4)
   \<and> LoadBitmaps bmp_empty [] (drop 8 prt_frames_5_of_4) = Inr ([], drop 12 prt_frames_5_of_4)
   \<and> 16 \<le> length (drop 12 prt_frames_5_of_4)
   \<and> load_animations (nat (unpack_I (take 4 (drop 12 prt_frames_5_of_4)))) 0 0 0
         (drop 16 (drop 12 prt_frames_5_of_4)) = Inr (anims_4_frames, 4, 0, 0, [])
   \<and> count_frames anims_4_frames = 4
   \<and> unpack_I (take 4 (drop 4 (drop 12 prt_frames_5_of_4))) = 5
   \<and> (\<exists>e. Load prt_frames_5_of_4 bmp_empty = Inl (PRTLoadError e) \<and> count_mismatch e)"
proof -
  have p: "LoadPalettes prt_frames_5_of_4 = Inr ([], drop 8 prt_frames_5_of_4)"
    by code_simp
  have b: "LoadBitmaps bmp_empty [] (drop 8 prt_frames_5_of_4) = Inr ([], drop 12 prt_frames_5_of_4)"
    by code_simp
  have n: "16 \<le> length (drop 12 prt_frames_5_of_4)"
    by code_simp
  have l: "load_animations (nat (unpack_I (take 4 (drop 12 prt_frames_5_of_4)))) 0 0 0
         (drop 16 (drop 12 prt_frames_5_of_4)) = Inr (anims_4_frames, 4, 0, 0, [])"
    by code_simp
  have c: "count_frames anims_4_frames = 4"
    by code_simp
  have h: "unpack_I (take 4 (drop 4 (drop 12 prt_frames_5_of_4))) = 5"
    by code_simp
  from c h have "count_frames anims_4_frames \<noteq> unpack_I (take 4 (drop 4 (drop 12 prt_frames_5_of_4)))"
    by simp
  with load_count_validation [OF p b n, THEN conjunct1, of anims_4_frames 4 0 0 "[]"] l
  have "\<exists>e. Load prt_frames_5_of_4 bmp_empty = Inl (PRTLoadError e) \<and> count_mismatch e"
    by blast
  with p b n h l c show ?thesis by blast
qed

subsection \<open>Palette ids of bitmaps\<close>

lemma load_bitmap_cases:
  assumes "20 \<le> length s"
  shows "load_bitmap i pals bmp ds s =
     (let pal_id = unpack_h (take 2 (drop 18 s)) in
      if pal_id < 0 \<or> pal_id > int (length pals) - 1
      then Inl (PRTLoadError (PaletteIdOutOfRange i pal_id))
      else if unpack_I (take 4 s) * unpack_I (take 4 (drop 8 s)) > 9223372036854775807
      then Inl OverflowError
      else Inr (\<lparr>bmp_palette = pals ! nat pal_id, bmp_palette_id = pal_id,
                 bmp_image_type = unpack_h (take 2 (drop 16 s)),
                 bmp_width = unpack_I (take 4 (drop 12 s)),
                 bmp_height = unpack_I (take 4 (drop 8 s)),
                 bmp_data = take (nat (unpack_I (take 4 s) * unpack_I (take 4 (drop 8 s))))
                              (drop (nat (unpack_I (take 4 (drop 4 s)) + ds)) bmp)\<rparr>,
                drop 20 s))"
proof -
  have t: "take 4 (take 20 s) = take 4 s" "take 4 (drop 4 (take 20 s)) = take 4 (drop 4 s)"
    "take 4 (drop 8 (take 20 s)) = take 4 (drop 8 s)"
    "take 4 (drop 12 (take 20 s)) = take 4 (drop 12 s)"
    "take 2 (drop 16 (take 20 s)) = take 2 (drop 16 s)"
    "take 2 (drop 18 (take 20 s)) = take 2 (drop 18 s)"
    by (simp_all add: drop_take)
  show ?thesis
    using assms by (simp add: load_bitmap_def ReadAndUnpack_def Let_def t)
qed

lemma load_bitmaps_loop_bad_palette:
  assumes "k < n" and "20 * (k + 1) \<le> length s"
    and "unpack_h (take 2 (drop (20 * k + 18) s)) < 0 \<or>
         unpack_h (take 2 (drop (20 * k + 18) s)) > int (length pals) - 1"
    and "\<forall>j<k. unpack_I (take 4 (drop (20 * j) s)) * unpack_I (take 4 (drop (20 * j + 8) s))
           \<le> 9223372036854775807"
  shows "\<exists>i q. load_bitmaps_loop n i0 pals bmp ds s = Inl (PRTLoadError (PaletteIdOutOfRange i q)) \<and>
           i0 \<le> i \<and> i \<le> i0 + k \<and> (q < 0 \<or> q > int (length pals) - 1)"
  using assms
proof (induction n arbitrary: k i0 s)
  case 0
  then show ?case by simp
next
  case (Suc n)
  from Suc.prems(2) have len: "20 \<le> length s" by simp
  show ?case
  proof (cases "unpack_h (take 2 (drop 18 s)) < 0 \<or> unpack_h (take 2 (drop 18 s)) > int (length pals) - 1")
    case True
    then have "load_bitmaps_loop (Suc n) i0 pals bmp ds s =
        Inl (PRTLoadError (PaletteIdOutOfRange i0 (unpack_h (take 2 (drop 18 s)))))"
      by (simp add: load_bitmap_cases [OF len] Let_def)
    with True show ?thesis by auto
  next
    case False
    from False Suc.prems(3) obtain k' where k: "k = Suc k'"
      by (cases k) auto
    from Suc.prems(4) k have
      "unpack_I (take 4 (drop (20 * 0) s)) * unpack_I (take 4 (drop (20 * 0 + 8) s))
         \<le> 9223372036854775807"
      by blast
    then have "\<not> unpack_I (take 4 s) * unpack_I (take 4 (drop 8 s)) > 9223372036854775807"
      by simp
    with False obtain b where lb: "load_bitmap i0 pals bmp ds s = Inr (b, drop 20 s)"
      by (auto simp: load_bitmap_cases [OF len] Let_def)
    have 1: "k' < n" using Suc.prems(1) k by simp
    have 2: "20 * (k' + 1) \<le> length (drop 20 s)" using Suc.prems(2) k by simp
    have 3: "unpack_h (take 2 (drop (20 * k' + 18) (drop 20 s))) < 0 \<or>
         unpack_h (take 2 (drop (20 * k' + 18) (drop 20 s))) > int (length pals) - 1"
      using Suc.prems(3) k by (simp add: add.commute add.left_commute)
    have 4: "\<forall>j<k'. unpack_I (take 4 (drop (20 * j) (drop 20 s))) *
                    unpack_I (take 4 (drop (20 * j + 8) (drop 20 s))) \<le> 9223372036854775807"
    proof (intro allI impI)
      fix j assume "j < k'"
      then have "Suc j < k" using k by simp
      with Suc.prems(4) have
        "unpack_I (take 4 (drop (20 * Suc j) s)) * unpack_I (take 4 (drop (20 * Suc j + 8) s))
           \<le> 9223372036854775807"
        by blast
      then show "unpack_I (take 4 (drop (20 * j) (drop 20 s))) *
                    unpack_I (take 4 (drop (20 * j + 8) (drop 20 s))) \<le> 9223372036854775807"
        by (simp add: add.commute add.left_commute)
    qed
    from Suc.IH [OF 1 2 3 4, of "Suc i0"] obtain i q where
      r: "load_bitmaps_loop n (Suc i0) pals bmp ds (drop 20 s) = Inl (PRTLoadError (PaletteIdOutOfRange i q))"
      and b: "Suc i0 \<le> i" "i \<le> Suc i0 + k'" "q < 0 \<or> q > int (length pals) - 1"
      by blast
    from lb r have "load_bitmaps_loop (Suc n) i0 pals bmp ds s = Inl (PRTLoadError (PaletteIdOutOfRange i q))"
      by simp
    with b k show ?thesis by auto
  qed
qed

lemma LoadBitmaps_table:
  assumes "14 \<le> length bmp" "take 2 bmp = tag_BM" "4 \<le> length s"
  shows "LoadBitmaps bmp pals s =
     load_bitmaps_loop (nat (unpack_I (take 4 s))) 0 pals bmp (unpack_I (take 4 (drop 10 bmp))) (drop 4 s)"
proof -
  have "drop 10 (take 14 bmp) = take 4 (drop 10 bmp)" by (simp add: drop_take)
  then show ?thesis
    using assms by (simp add: LoadBitmaps_def ReadAndUnpack_def Let_def)
qed

text \<open>
  C6. With the palettes loaded and the header of the companion blob accepted, a bitmap
  record present in the stream, within the declared count, whose palette id is negative
  or greater than the last index of the palette table makes \<open>Load\<close> fail with the
  out-of-range error of the first such record, provided the pixels of the records before
  it can be read: their sizes \<open>padded_w * h\<close> are at most \<open>2^63 - 1\<close>, so that no
  \<open>read\<close> raises before the record is reached. A palette id equal to the number of
  palettes is one of them.
\<close>

theorem palette_id_validation:
  assumes "LoadPalettes prt = Inr (pals, s)"
    and "14 \<le> length bmp" and "take 2 bmp = tag_BM"
    and "4 \<le> length s"
    and "k < nat (unpack_I (take 4 s))"
    and "4 + 20 * (k + 1) \<le> length s"
    and "unpack_h (take 2 (drop (4 + 20 * k + 18) s)) < 0 \<or>
         unpack_h (take 2 (drop (4 + 20 * k + 18) s)) > int (length pals) - 1"
    and "\<forall>j<k. unpack_I (take 4 (drop (4 + 20 * j) s)) *
                 unpack_I (take 4 (drop (4 + 20 * j + 8) s)) \<le> 9223372036854775807"
  shows "\<exists>i q. Load prt bmp = Inl (PRTLoadError (PaletteIdOutOfRange i q)) \<and> i \<le> k \<and>
           (q < 0 \<or> q > int (length pals) - 1)"
proof -
  have 2: "20 * (k + 1) \<le> length (drop 4 s)" using assms(6) by simp
  have 3: "unpack_h (take 2 (drop (20 * k + 18) (drop 4 s))) < 0 \<or>
         unpack_h (take 2 (drop (20 * k + 18) (drop 4 s))) > int (length pals) - 1"
    using assms(7) by (simp add: add.commute add.left_commute)
  have 4: "\<forall>j<k. unpack_I (take 4 (drop (20 * j) (drop 4 s))) *
                 unpack_I (take 4 (drop (20 * j + 8) (drop 4 s))) \<le> 9223372036854775807"
    using assms(8) by (simp add: add.commute add.left_commute)
  from load_bitmaps_loop_bad_palette [OF assms(5) 2 3 4, of 0 bmp "unpack_I (take 4 (drop 10 bmp))"]
  obtain i q where
    "load_bitmaps_loop (nat (unpack_I (take 4 s))) 0 pals bmp (unpack_I (take 4 (drop 10 bmp))) (drop 4 s) =
       Inl (PRTLoadError (PaletteIdOutOfRange i q))"
    and b: "i \<le> k" "q < 0 \<or> q > int (length pals) - 1"
    by auto
  then have "LoadBitmaps bmp pals s = Inl (PRTLoadError (PaletteIdOutOfRange i q))"
    by (simp add: LoadBitmaps_table [OF assms(2,3,4)])
  with assms(1) have "Load prt bmp = Inl (PRTLoadError (PaletteIdOutOfRange i q))"
    by (simp add: Load_def)
  with b show ?thesis by blast
qed

theorem palette_id_validation_witness:
  "LoadPalettes prt_palette_one_past = Inr ([\<lparr>colors = []\<rparr>], drop 28 prt_palette_one_past)
   \<and> 14 \<le> length bmp_empty \<and> take 2 bmp_empty = tag_BM
   \<and> 4 \<le> length (drop 28 prt_palette_one_past)
   \<and> 1 < nat (unpack_I (take 4 (drop 28 prt_palette_one_past)))
   \<and> 4 + 20 * (1 + 1) \<le> length (drop 28 prt_palette_one_past)
   \<and> unpack_h (take 2 (drop (4 + 20 * 1 + 18) (drop 28 prt_palette_one_past))) = int (length [\<lparr>colors = []\<rparr>])
   \<and> unpack_I (take 4 (drop (4 + 20 * 0) (drop 28 prt_palette_one_past))) *
       unpack_I (take 4 (drop (4 + 20 * 0 + 8) (drop 28 prt_palette_one_past))) = 16
   \<and> Load prt_palette_one_past bmp_empty = Inl (PRTLoadError (PaletteIdOutOfRange 1 1))"
proof -
  have h: "LoadPalettes prt_palette_one_past = Inr ([\<lparr>colors = []\<rparr>], drop 28 prt_palette_one_past)"
    "14 \<le> length bmp_empty" "take 2 bmp_empty = tag_BM"
    "4 \<le> length (drop 28 prt_palette_one_past)"
    "1 < nat (unpack_I (take 4 (drop 28 prt_palette_one_past)))"
    "4 + 20 * (1 + 1) \<le> length (drop 28 prt_palette_one_past)"
    by code_simp+
  have p: "unpack_h (take 2 (drop (4 + 20 * 1 + 18) (drop 28 prt_palette_one_past))) = int (length [\<lparr>colors = []\<rparr>])"
    by code_simp
  then have q: "unpack_h (take 2 (drop (4 + 20 * 1 + 18) (drop 28 prt_palette_one_past))) < 0 \<or>
     unpack_h (take 2 (drop (4 + 20 * 1 + 18) (drop 28 prt_palette_one_past))) > int (length [\<lparr>colors = []\<rparr>]) - 1"
    by simp
  have r: "unpack_I (take 4 (drop (4 + 20 * 0) (drop 28 prt_palette_one_past))) *
       unpack_I (take 4 (drop (4 + 20 * 0 + 8) (drop 28 prt_palette_one_past))) = 16"
    by code_simp
  have b: "\<forall>j<1. unpack_I (take 4 (drop (4 + 20 * j) (drop 28 prt_palette_one_past))) *
       unpack_I (take 4 (drop (4 + 20 * j + 8) (drop 28 prt_palette_one_past))) \<le> 9223372036854775807"
  proof (intro allI impI)
    fix j :: nat assume "j < 1"
    then have "j = 0" by simp
    with r show "unpack_I (take 4 (drop (4 + 20 * j) (drop 28 prt_palette_one_past))) *
       unpack_I (take 4 (drop (4 + 20 * j + 8) (drop 28 prt_palette_one_past))) \<le> 9223372036854775807"
      by simp
  qed
  from palette_id_validation [OF h q b]
  obtain i q where "Load prt_palette_one_past bmp_empty = Inl (PRTLoadError (PaletteIdOutOfRange i q))"
    by blast
  moreover have "Load prt_palette_one_past bmp_empty = Inl (PRTLoadError (PaletteIdOutOfRange 1 1))"
    by code_simp
  ultimately show ?thesis using h p r by blast
qed

subsection \<open>What a successful load guarantees\<close>

lemma fits_B_unpack_B: "fits_B (unpack_B x)"
  using uint_byte_bounds [of x] by (simp add: fits_B_def unpack_B_def)

lemma fits_I_unpack_I: "length bs = 4 \<Longrightarrow> fits_I (unpack_I bs)"
  using le_uint_bounds [of bs] by (simp add: fits_I_def unpack_I_def)

lemma fits_h_unpack_h: "length bs = 2 \<Longrightarrow> fits_h (unpack_h bs)"
  using le_uint_bounds [of bs] by (simp add: fits_h_def unpack_h_def Let_def)

lemma unpack_I_nonneg: "0 \<le> unpack_I bs"
  using le_uint_bounds [of bs] by (simp add: unpack_I_def)

lemma color_fits_entry: "color_fits (color_of_entry e)"
  by (simp add: color_fits_def color_of_entry_def fits_B_unpack_B)

lemma load_colors_fits:
  "load_colors j cols s = Inr (cols', s') \<Longrightarrow> list_all color_fits cols \<Longrightarrow>
     list_all color_fits cols' \<and> length cols' = length cols + j"
proof (induction j arbitrary: cols s)
  case 0
  then show ?case by simp
next
  case (Suc j)
  from Suc.prems(1) obtain e s1 where
    l: "load_colors j (cols @ [color_of_entry e]) s1 = Inr (cols', s')"
    by (auto split: sum.splits prod.splits)
  from Suc.IH [OF l] Suc.prems(2) show ?case by (simp add: color_fits_entry)
qed

lemma load_palette_tags_fits:
  "load_palette_tags n cols s = Inr (cols', s') \<Longrightarrow> list_all color_fits cols \<Longrightarrow>
     list_all color_fits cols' \<and> (\<exists>m. length cols' = length cols + 256 * m)"
proof (induction n cols s rule: load_palette_tags.induct)
  case (1 num_tags_left cols s)
  show ?case
  proof (cases "num_tags_left > 0")
    case False
    with "1.prems" show ?thesis by (simp add: load_palette_tags.simps)
  next
    case True
    with "1.prems"(1) obtain hdr s1 where r: "ReadAndUnpack 8 s = Inr (hdr, s1)"
      by (subst (asm) load_palette_tags.simps) (auto split: sum.splits prod.splits)
    note IH = "1.IH"(1,2,3) [OF True r refl]
    consider (ppal) "take 4 hdr = tag_PPAL"
      | (hd) "take 4 hdr \<noteq> tag_PPAL" "take 4 hdr \<noteq> tag_RIFF" "take 4 hdr = tag_head"
      | (data) "take 4 hdr \<noteq> tag_PPAL" "take 4 hdr \<noteq> tag_RIFF" "take 4 hdr \<noteq> tag_head" "take 4 hdr = tag_data"
      | (riff) "take 4 hdr \<noteq> tag_PPAL" "take 4 hdr = tag_RIFF"
      | (other) "take 4 hdr \<noteq> tag_PPAL" "take 4 hdr \<noteq> tag_RIFF" "take 4 hdr \<noteq> tag_head"
          "take 4 hdr \<noteq> tag_data"
      by blast
    then show ?thesis
    proof cases
      case ppal
      with "1.prems"(1) True r have
        sz: "\<not> unpack_I (drop 4 hdr) \<noteq> 1048" and
        l: "load_palette_tags (num_tags_left - 1) cols s1 = Inr (cols', s')"
        by (subst (asm) load_palette_tags.simps, simp split: if_splits)+
      from IH(1) [OF ppal sz l "1.prems"(2)] show ?thesis .
    next
      case hd
      with "1.prems"(1) True r obtain d s2 where
        sz: "\<not> unpack_I (drop 4 hdr) \<noteq> 4" and
        r2: "ReadAndUnpack 4 s1 = Inr (d, s2)" and
        l: "load_palette_tags (unpack_I d) cols s2 = Inr (cols', s')"
        by (subst (asm) load_palette_tags.simps) (auto split: if_splits sum.splits prod.splits)
      from IH(2) [OF hd(1,2,3) sz r2 refl l "1.prems"(2)] show ?thesis .
    next
      case data
      with "1.prems"(1) True r obtain cols1 s2 where
        sz: "\<not> unpack_I (drop 4 hdr) \<noteq> 1024" and
        r2: "load_colors 256 cols s1 = Inr (cols1, s2)" and
        l: "load_palette_tags (num_tags_left - 1) cols1 s2 = Inr (cols', s')"
        by (subst (asm) load_palette_tags.simps) (auto split: if_splits sum.splits prod.splits)
      from load_colors_fits [OF r2 "1.prems"(2)] have
        c1: "list_all color_fits cols1" "length cols1 = length cols + 256" by simp_all
      from IH(3) [OF data(1,2,3,4) sz r2 refl l c1(1)] c1(2)
      obtain m where "list_all color_fits cols'" "length cols' = length cols + 256 + 256 * m"
        by auto
      then have "list_all color_fits cols'" "length cols' = length cols + 256 * (Suc m)" by simp_all
      then show ?thesis by blast
    next
      case riff
      with "1.prems"(1) True r show ?thesis
        by (subst (asm) load_palette_tags.simps) simp
    next
      case other
      with "1.prems"(1) True r show ?thesis
        by (subst (asm) load_palette_tags.simps) simp
    qed
  qed
qed


lemma load_palettes_loop_fits:
  "load_palettes_loop n s = Inr (pals, s') \<Longrightarrow>
     length pals = n \<and>
     list_all (\<lambda>p. list_all color_fits (colors p) \<and> (\<exists>m. length (colors p) = 256 * m)) pals"
proof (induction n arbitrary: s pals)
  case 0
  then show ?case by simp
next
  case (Suc n)
  from Suc.prems obtain cols s1 ps where
    a: "load_palette_tags 2 [] s = Inr (cols, s1)" and
    b: "load_palettes_loop n s1 = Inr (ps, s')" and
    c: "pals = \<lparr>colors = cols\<rparr> # ps"
    by (auto split: sum.splits prod.splits)
  from load_palette_tags_fits [OF a] Suc.IH [OF b] c show ?case by simp
qed

lemma LoadPalettes_fits:
  assumes "LoadPalettes s = Inr (pals, s')"
  shows "fits_I (int (length pals)) \<and>
     list_all (\<lambda>p. list_all color_fits (colors p) \<and> (\<exists>m. length (colors p) = 256 * m)) pals"
proof -
  from assms obtain hdr s1 where
    r: "ReadAndUnpack 8 s = Inr (hdr, s1)" and
    l: "load_palettes_loop (nat (unpack_I (drop 4 hdr))) s1 = Inr (pals, s')"
    by (auto simp: LoadPalettes_def split: sum.splits prod.splits if_splits)
  from ReadAndUnpack_length [OF r] have "length (drop 4 hdr) = 4" by simp
  from fits_I_unpack_I [OF this] load_palettes_loop_fits [OF l] show ?thesis
    by (simp add: fits_I_def)
qed

lemma load_bitmap_fits:
  assumes "load_bitmap i pals bmp ds s = Inr (b, s')"
  shows "bitmap_fits pals b"
proof -
  from assms have len: "20 \<le> length s"
    by (auto simp: load_bitmap_def split: sum.splits dest: ReadAndUnpack_length)
  have f: "fits_I (unpack_I (take 4 (drop 12 s)))" "fits_I (unpack_I (take 4 (drop 8 s)))"
    "fits_h (unpack_h (take 2 (drop 16 s)))" "fits_h (unpack_h (take 2 (drop 18 s)))"
    using len by (simp_all add: fits_I_unpack_I fits_h_unpack_h)
  from assms f show ?thesis
    by (auto simp: load_bitmap_cases [OF len] Let_def bitmap_fits_def split: if_splits)
qed

lemma load_bitmaps_loop_fits:
  "load_bitmaps_loop n i pals bmp ds s = Inr (bs, s') \<Longrightarrow>
     length bs = n \<and> list_all (bitmap_fits pals) bs"
proof (induction n arbitrary: i s bs)
  case 0
  then show ?case by simp
next
  case (Suc n)
  from Suc.prems obtain b s1 bs1 where
    a: "load_bitmap i pals bmp ds s = Inr (b, s1)" and
    l: "load_bitmaps_loop n (Suc i) pals bmp ds s1 = Inr (bs1, s')" and
    c: "bs = b # bs1"
    by (auto split: sum.splits prod.splits)
  from load_bitmap_fits [OF a] Suc.IH [OF l] c show ?case by simp
qed

lemma LoadBitmaps_fits:
  assumes "LoadBitmaps bmp pals s = Inr (bs, s')"
  shows "fits_I (int (length bs)) \<and> list_all (bitmap_fits pals) bs"
proof -
  from assms obtain d s1 where
    r: "ReadAndUnpack 4 s = Inr (d, s1)" and
    l: "load_bitmaps_loop (nat (unpack_I d)) 0 pals bmp (unpack_I (drop 10 (take 14 bmp))) s1 = Inr (bs, s')"
    by (auto simp: LoadBitmaps_def Let_def split: sum.splits prod.splits if_splits)
  from ReadAndUnpack_length [OF r] have "length d = 4" by simp
  from fits_I_unpack_I [OF this] load_bitmaps_loop_fits [OF l] show ?thesis
    by (simp add: fits_I_def)
qed

lemma subframe_fits_of: "length d = 8 \<Longrightarrow> subframe_fits (subframe_of d)"
  by (simp add: subframe_fits_def subframe_of_def fits_B_unpack_B fits_h_unpack_h)

lemma load_subframes_fits:
  "load_subframes k n s = Inr (sfs, n', s') \<Longrightarrow> list_all subframe_fits sfs"
proof (induction k arbitrary: n s sfs)
  case 0
  then show ?case by simp
next
  case (Suc k)
  from Suc.prems obtain d s1 sfs1 where
    r: "ReadAndUnpack 8 s = Inr (d, s1)" and
    l: "load_subframes k (n + 1) s1 = Inr (sfs1, n', s')" and
    e: "sfs = subframe_of d # sfs1"
    by (auto split: sum.splits prod.splits)
  from ReadAndUnpack_length [OF r] Suc.IH [OF l] e show ?case
    by (simp add: subframe_fits_of)
qed

lemma load_optional_pair_fits:
  assumes "load_optional_pair (unpack_B x) s = Inr (v, o1, o2, s')"
  shows "0 \<le> v \<and> v \<le> 127 \<and> pair_fits o1 o2"
proof (cases "unpack_B x AND 0x80 = 0")
  case True
  with assms have "v = unpack_B x" "o1 = None" "o2 = None"
    by (simp_all add: load_optional_pair_def)
  moreover have "0 \<le> unpack_B x" "unpack_B x < 128"
    using True and_0x80_zero [of "unpack_B x"] uint_byte_bounds [of x]
    by (simp_all add: unpack_B_def)
  ultimately show ?thesis by simp
next
  case False
  with assms obtain d where "v = unpack_B x AND 0x7F" "o1 = Some (unpack_B (d ! 0))"
    "o2 = Some (unpack_B (d ! 1))"
    by (auto simp: load_optional_pair_def split: sum.splits prod.splits)
  then show ?thesis by (simp add: and_0x7F fits_B_unpack_B)
qed

lemma load_frame_fits:
  assumes "load_frame n s = Inr (f, n', s')"
  shows "frame_fits f"
proof -
  from assms obtain d s1 c o1 o2 s2 u o3 o4 s3 sfs where
    p1: "load_optional_pair (unpack_B (d ! 0)) s1 = Inr (c, o1, o2, s2)" and
    p2: "load_optional_pair (unpack_B (d ! 1)) s2 = Inr (u, o3, o4, s3)" and
    ls: "load_subframes (nat c) n s3 = Inr (sfs, n', s')" and
    f: "f = \<lparr>frame_subframes = sfs, frame_unknown = u, optional1 = o1, optional2 = o2,
             optional3 = o3, optional4 = o4\<rparr>"
    by (auto simp: load_frame_def split: sum.splits prod.splits)
  from load_optional_pair_fits [OF p1] load_optional_pair_fits [OF p2]
    load_subframes_Inr [OF ls] load_subframes_fits [OF ls] f
  show ?thesis by (auto simp: frame_fits_def)
qed

lemma load_frames_fits:
  "load_frames j nf nsf s = Inr (fs, nf', nsf', s') \<Longrightarrow> list_all frame_fits fs"
proof (induction j arbitrary: nf nsf s fs)
  case 0
  then show ?case by simp
next
  case (Suc j)
  from Suc.prems obtain f n1 s1 fs1 where
    a: "load_frame nsf s = Inr (f, n1, s1)" and
    b: "load_frames j (nf + 1) n1 s1 = Inr (fs1, nf', nsf', s')" and
    c: "fs = f # fs1"
    by (auto split: sum.splits prod.splits)
  from load_frame_fits [OF a] Suc.IH [OF b] c show ?case by simp
qed

lemma appendix_fits_of: "length d = 16 \<Longrightarrow> appendix_fits (appendix_of d)"
  by (simp add: appendix_fits_def appendix_of_def fits_I_unpack_I)

lemma load_appendix_fits:
  "load_appendix j na s = Inr (aps, na', s') \<Longrightarrow> list_all appendix_fits aps"
proof (induction j arbitrary: na s aps)
  case 0
  then show ?case by simp
next
  case (Suc j)
  from Suc.prems obtain d s1 aps1 where
    r: "ReadAndUnpack 16 s = Inr (d, s1)" and
    b: "load_appendix j (na + 1) s1 = Inr (aps1, na', s')" and
    c: "aps = appendix_of d # aps1"
    by (auto split: sum.splits prod.splits)
  from ReadAndUnpack_length [OF r] Suc.IH [OF b] c show ?case
    by (simp add: appendix_fits_of)
qed

lemma load_animation_fits:
  assumes "load_animation nf nsf na s = Inr (a, nf', nsf', na', s')"
  shows "animation_fits a"
proof -
  from assms obtain d s1 fs nf1 nsf1 s2 u s3 aps where
    r: "ReadAndUnpack 36 s = Inr (d, s1)" and
    lf: "load_frames (nat (unpack_I (take 4 (drop 32 d)))) nf nsf s1 = Inr (fs, nf1, nsf1, s2)" and
    ru: "ReadAndUnpack 4 s2 = Inr (u, s3)" and
    la: "load_appendix (nat (unpack_I u)) na s3 = Inr (aps, na', s')" and
    a: "a = \<lparr>anim_unknown1 = unpack_I (take 4 d),
             anim_bounding_box =
               Rect (unpack_I (take 4 (drop 4 d))) (unpack_I (take 4 (drop 8 d)))
                    (unpack_I (take 4 (drop 12 d))) (unpack_I (take 4 (drop 16 d))),
             anim_offset =
               Point (unpack_I (take 4 (drop 20 d))) (unpack_I (take 4 (drop 24 d))),
             anim_unknown2 = unpack_I (take 4 (drop 28 d)),
             anim_frames = fs, anim_appendix = aps,
             anim_unknown3 = unpack_I u\<rparr>"
    by (auto simp: load_animation_def split: sum.splits prod.splits)
  from ReadAndUnpack_length [OF r] have d: "length d = 36" by simp
  from ReadAndUnpack_length [OF ru] have u: "length u = 4" by simp
  have fr: "fits_I (unpack_I (take 4 (drop 32 d)))" using d by (simp add: fits_I_unpack_I)
  from load_frames_Inr [OF lf] fr have nfr: "fits_I (int (length fs))"
    by (simp add: fits_I_def)
  from load_appendix_Inr [OF la] have nap: "unpack_I u = int (length aps)"
    using unpack_I_nonneg [of u] by simp
  show ?thesis
    using d u nfr nap load_frames_fits [OF lf] load_appendix_fits [OF la] fits_I_unpack_I [OF u]
    by (simp add: a animation_fits_def fits_I_unpack_I)
qed

lemma load_animations_fits:
  "load_animations i nf nsf na s = Inr (anims, nf', nsf', na', s') \<Longrightarrow>
     list_all animation_fits anims"
proof (induction i arbitrary: nf nsf na s anims)
  case 0
  then show ?case by simp
next
  case (Suc i)
  from Suc.prems obtain a nf1 nsf1 na1 s1 as where
    a: "load_animation nf nsf na s = Inr (a, nf1, nsf1, na1, s1)" and
    b: "load_animations i nf1 nsf1 na1 s1 = Inr (as, nf', nsf', na', s')" and
    c: "anims = a # as"
    by (auto split: sum.splits prod.splits)
  from load_animation_fits [OF a] Suc.IH [OF b] c show ?case by simp
qed

lemma LoadAnimations_Inr:
  assumes "LoadAnimations s = Inr (anims, no, ex)"
  shows "16 \<le> length s \<and>
     (\<exists>nla. load_animations (nat (unpack_I (take 4 s))) 0 0 0 (drop 16 s) =
        Inr (anims, unpack_I (take 4 (drop 4 s)), unpack_I (take 4 (drop 8 s)), nla, ex)) \<and>
     int (length anims) = unpack_I (take 4 s) \<and> no = unpack_I (take 4 (drop 12 s))"
proof -
  from assms obtain d1 s1 d2 s2 d3 s3 d4 s4 where
    "ReadAndUnpack 4 s = Inr (d1, s1)" "ReadAndUnpack 4 s1 = Inr (d2, s2)"
    "ReadAndUnpack 4 s2 = Inr (d3, s3)" "ReadAndUnpack 4 s3 = Inr (d4, s4)"
    by (auto simp: LoadAnimations_def split: sum.splits prod.splits)
  then have len: "16 \<le> length s"
    by (auto dest!: ReadAndUnpack_length)
  from assms show ?thesis
    by (auto simp: LoadAnimations_header [OF len] len split: sum.splits prod.splits if_splits)
qed

lemma LoadAnimations_fits:
  assumes "LoadAnimations s = Inr (anims, no, ex)"
  shows "fits_I (int (length anims)) \<and> fits_I (count_frames anims) \<and>
     fits_I (count_subframes anims) \<and> fits_I no \<and> list_all animation_fits anims"
proof -
  from LoadAnimations_Inr [OF assms] obtain nla where
    len: "16 \<le> length s" and
    l: "load_animations (nat (unpack_I (take 4 s))) 0 0 0 (drop 16 s) =
        Inr (anims, unpack_I (take 4 (drop 4 s)), unpack_I (take 4 (drop 8 s)), nla, ex)" and
    e: "int (length anims) = unpack_I (take 4 s)" "no = unpack_I (take 4 (drop 12 s))"
    by blast
  have f: "fits_I (unpack_I (take 4 s))" "fits_I (unpack_I (take 4 (drop 4 s)))"
    "fits_I (unpack_I (take 4 (drop 8 s)))" "fits_I (unpack_I (take 4 (drop 12 s)))"
    using len by (simp_all add: fits_I_unpack_I)
  from load_animations_Inr [OF l] load_animations_fits [OF l] e f show ?thesis by simp
qed

lemma Load_Inr:
  assumes "Load prt bmp = Inr c"
  shows "\<exists>s1 s2. LoadPalettes prt = Inr (palettes c, s1) \<and>
           LoadBitmaps bmp (palettes c) s1 = Inr (bitmaps c, s2) \<and>
           LoadAnimations s2 = Inr (animations c, num_optional_entries c, extra_data c)"
  using assms by (auto simp: Load_def split: sum.splits prod.splits)

lemma Load_fits:
  assumes "Load prt bmp = Inr c"
  shows "container_fits c"
proof -
  from Load_Inr [OF assms] obtain s1 s2 where
    p: "LoadPalettes prt = Inr (palettes c, s1)" and
    b: "LoadBitmaps bmp (palettes c) s1 = Inr (bitmaps c, s2)" and
    a: "LoadAnimations s2 = Inr (animations c, num_optional_entries c, extra_data c)"
    by blast
  from LoadPalettes_fits [OF p] have "list_all (\<lambda>p. list_all color_fits (colors p)) (palettes c)"
    by (simp add: list_all_iff)
  with LoadPalettes_fits [OF p] LoadBitmaps_fits [OF b] LoadAnimations_fits [OF a]
  show ?thesis by (simp add: container_fits_def)
qed

subsection \<open>Bitmap indices of subframes\<close>

text \<open>
  A stream whose bitmap table is empty and whose only subframe has bitmap id 7 is
  loaded without error.
\<close>

theorem subframe_bitmap_id_counterexample:
  "Load prt_subframe_id_7 bmp_empty = Inr container_subframe_id_7
   \<and> bitmaps container_subframe_id_7 = []
   \<and> sf_bitmap_id (hd (frame_subframes (hd (anim_frames (hd (animations container_subframe_id_7)))))) = 7"
  by code_simp

lemma load_subframes_nth:
  "load_subframes k n s = Inr (sfs, n', s') \<Longrightarrow> i < k \<Longrightarrow>
     sfs ! i = subframe_of (take 8 (drop (8 * i) s))"
proof (induction k arbitrary: n s sfs i)
  case 0
  then show ?case by simp
next
  case (Suc k)
  from Suc.prems(1) obtain d s1 sfs1 where
    r: "ReadAndUnpack 8 s = Inr (d, s1)" and
    l: "load_subframes k (n + 1) s1 = Inr (sfs1, n', s')" and
    e: "sfs = subframe_of d # sfs1"
    by (auto split: sum.splits prod.splits)
  from ReadAndUnpack_Inr [OF r] have d: "d = take 8 s" "s1 = drop 8 s" by simp_all
  show ?case
  proof (cases i)
    case 0
    with e d show ?thesis by simp
  next
    case (Suc j)
    with Suc.prems(2) have "j < k" by simp
    from Suc.IH [OF l this] e d Suc show ?thesis by (simp add: add.commute)
  qed
qed

lemma sf_bitmap_id_of: "sf_bitmap_id (subframe_of (take 8 s)) = unpack_h (take 2 s)"
  by (simp add: subframe_of_def)

text \<open>
  C7, as the code has it. The bitmap index of a subframe is not checked against the
  bitmap table: every subframe record present in the stream is read, whatever its first
  two bytes are, and its \<open>bitmap_id\<close> is their signed 16-bit value. The only range a
  successful \<open>Load\<close> guarantees for it is that of the format, -32768 to 32767.
\<close>

theorem subframe_bitmap_id_unchecked:
  "(8 * k \<le> length s \<longrightarrow>
      (\<exists>sfs. load_subframes k n s = Inr (sfs, n + int k, drop (8 * k) s) \<and>
         (\<forall>i<k. sf_bitmap_id (sfs ! i) = unpack_h (take 2 (drop (8 * i) s)))))
   \<and> (Load prt bmp = Inr c \<longrightarrow>
        (\<forall>a\<in>set (animations c). \<forall>f\<in>set (anim_frames a). \<forall>sf\<in>set (frame_subframes f).
           fits_h (sf_bitmap_id sf)))"
proof -
  have A: "\<exists>sfs. load_subframes k n s = Inr (sfs, n + int k, drop (8 * k) s) \<and>
         (\<forall>i<k. sf_bitmap_id (sfs ! i) = unpack_h (take 2 (drop (8 * i) s)))"
    if "8 * k \<le> length s"
  proof -
    from load_subframes_ok [OF that, of n] obtain sfs where
      l: "load_subframes k n s = Inr (sfs, n + int k, drop (8 * k) s)" by blast
    have "sf_bitmap_id (sfs ! i) = unpack_h (take 2 (drop (8 * i) s))" if "i < k" for i
      using load_subframes_nth [OF l that] by (simp add: sf_bitmap_id_of)
    with l show ?thesis by blast
  qed
  have B: "\<forall>a\<in>set (animations c). \<forall>f\<in>set (anim_frames a). \<forall>sf\<in>set (frame_subframes f).
           fits_h (sf_bitmap_id sf)"
    if "Load prt bmp = Inr c"
    using Load_fits [OF that]
    by (auto simp: container_fits_def animation_fits_def frame_fits_def subframe_fits_def list_all_iff)
  from A B show ?thesis by blast
qed

theorem subframe_bitmap_id_unchecked_witness:
  "8 * 1 \<le> length [7, 0, 3, 4, 5, 0, 6, 0 :: byte]
   \<and> (\<exists>sfs. load_subframes 1 0 [7, 0, 3, 4, 5, 0, 6, 0] = Inr (sfs, 1, []) \<and>
         sf_bitmap_id (sfs ! 0) = 7)
   \<and> Load prt_subframe_id_7 bmp_empty = Inr container_subframe_id_7
   \<and> fits_h 7"
proof -
  have l: "8 * 1 \<le> length [7, 0, 3, 4, 5, 0, 6, 0 :: byte]" by simp
  have u: "unpack_h (take 2 (drop (8 * 0) [7, 0, 3, 4, 5, 0, 6, 0])) = 7" by code_simp
  have c: "Load prt_subframe_id_7 bmp_empty = Inr container_subframe_id_7" by code_simp
  from subframe_bitmap_id_unchecked [of 1 "[7, 0, 3, 4, 5, 0, 6, 0]" 0, THEN conjunct1] l u
  have 1: "\<exists>sfs. load_subframes 1 0 [7, 0, 3, 4, 5, 0, 6, 0] = Inr (sfs, 1, []) \<and>
         sf_bitmap_id (sfs ! 0) = 7"
    by simp
  from subframe_bitmap_id_unchecked [of _ _ _ prt_subframe_id_7 bmp_empty container_subframe_id_7, THEN conjunct2] c
  have "fits_h 7"
    by (simp add: container_subframe_id_7_def)
  with l 1 c show ?thesis by blast
qed

subsection \<open>The number of colours of a palette\<close>

text \<open>
  A palette entry whose \<open>head\<close> section carries the count 0 is accepted and gives a
  palette without colours.
\<close>

theorem palette_256_colors_counterexample:
  "Load prt_palette_head_0 bmp_empty = Inr container_empty_palette
   \<and> length (colors (hd (palettes container_empty_palette))) = 0"
  by code_simp

lemma unpack_I_le_bytes: "fits_I v \<Longrightarrow> unpack_I (le_bytes 4 v) = v"
  by (simp add: unpack_I_def fits_I_def le_uint_le_bytes)

lemma tags_distinct:
  "tag_RIFF \<noteq> tag_PPAL" "tag_head \<noteq> tag_PPAL" "tag_head \<noteq> tag_RIFF"
  "tag_data \<noteq> tag_PPAL" "tag_data \<noteq> tag_RIFF" "tag_data \<noteq> tag_head"
  by (simp_all add: tag_PPAL_def tag_RIFF_def tag_head_def tag_data_def)

lemma tag_lengths [simp]:
  "length tag_CPAL = 4" "length tag_PPAL = 4" "length tag_RIFF = 4" "length tag_head = 4"
  "length tag_data = 4" "length tag_BM = 2"
  by (simp_all add: tag_CPAL_def tag_PPAL_def tag_RIFF_def tag_head_def tag_data_def tag_BM_def)

lemma ReadAndUnpack_append: "length d = n \<Longrightarrow> ReadAndUnpack n (d @ s) = Inr (d, s)"
  by (simp add: ReadAndUnpack_def)

lemma ReadAndUnpack_8: "length t = 4 \<Longrightarrow> ReadAndUnpack 8 (t @ le_bytes 4 v @ s) = Inr (t @ le_bytes 4 v, s)"
  using ReadAndUnpack_append [of "t @ le_bytes 4 v" 8 s] by simp

lemma tags_done: "n \<le> 0 \<Longrightarrow> load_palette_tags n cols s = Inr (cols, s)"
  by (subst load_palette_tags.simps) simp

lemma tags_PPAL:
  "0 < n \<Longrightarrow> load_palette_tags n cols (tag_PPAL @ le_bytes 4 1048 @ s) =
     load_palette_tags (n - 1) cols s"
  by (subst load_palette_tags.simps)
     (simp add: ReadAndUnpack_8 unpack_I_le_bytes fits_I_def)

lemma tags_head:
  "0 < n \<Longrightarrow> fits_I m \<Longrightarrow>
   load_palette_tags n cols (tag_head @ le_bytes 4 4 @ le_bytes 4 m @ s) =
     load_palette_tags m cols s"
  by (subst load_palette_tags.simps)
     (simp add: ReadAndUnpack_8 ReadAndUnpack_append unpack_I_le_bytes fits_I_def tags_distinct)

lemma tags_data:
  "0 < n \<Longrightarrow>
   load_palette_tags n cols (tag_data @ le_bytes 4 1024 @ s) =
     (case load_colors 256 cols s of
        Inl e \<Rightarrow> Inl e
      | Inr (cols', s2) \<Rightarrow> load_palette_tags (n - 1) cols' s2)"
  by (subst load_palette_tags.simps)
     (simp add: ReadAndUnpack_8 unpack_I_le_bytes fits_I_def tags_distinct)

lemma load_colors_ok:
  "4 * j \<le> length s \<Longrightarrow>
     \<exists>cols'. load_colors j cols s = Inr (cols', drop (4 * j) s) \<and> length cols' = length cols + j"
proof (induction j arbitrary: cols s)
  case 0
  then show ?case by simp
next
  case (Suc j)
  then have "4 \<le> length s" and "4 * j \<le> length (drop 4 s)" by simp_all
  from Suc.IH [OF this(2), of "cols @ [color_of_entry (take 4 s)]"] this(1) show ?case
    by (auto simp: ReadAndUnpack_ok add.commute)
qed

lemma load_palette_written_layout:
  assumes "1024 \<le> length payload"
  shows "\<exists>cols. load_palette_tags 2 []
           (tag_PPAL @ le_bytes 4 1048 @ tag_head @ le_bytes 4 4 @ le_bytes 4 1 @
            tag_data @ le_bytes 4 1024 @ payload) = Inr (cols, drop 1024 payload) \<and>
         length cols = 256"
proof -
  from assms have "4 * 256 \<le> length payload" by simp
  from load_colors_ok [OF this, of "[]"] obtain cols where
    "load_colors 256 [] payload = Inr (cols, drop 1024 payload)" "length cols = 256"
    by auto
  then show ?thesis
    by (simp add: tags_PPAL tags_head tags_data tags_done fits_I_def)
qed

text \<open>
  C8, as the code has it. In a container that \<open>Load\<close> returns, the number of colours
  of each palette is a multiple of 256, 256 for each \<open>data\<close> section read in its entry,
  and the count in the \<open>head\<close> section decides how many sections follow. An entry
  laid out as \<open>Write\<close> lays it out (\<open>PPAL\<close>, \<open>head\<close> with count 1, \<open>data\<close>) over a
  payload of at least 1024 bytes gives exactly 256 colours.
\<close>

theorem palette_color_count:
  "(Load prt bmp = Inr c \<longrightarrow> (\<forall>p\<in>set (palettes c). \<exists>m. length (colors p) = 256 * m))
   \<and> (1024 \<le> length payload \<longrightarrow>
        (\<exists>cols. load_palette_tags 2 []
           (tag_PPAL @ le_bytes 4 1048 @ tag_head @ le_bytes 4 4 @ le_bytes 4 1 @
            tag_data @ le_bytes 4 1024 @ payload) = Inr (cols, drop 1024 payload) \<and>
         length cols = 256))"
proof -
  have A: "\<forall>p\<in>set (palettes c). \<exists>m. length (colors p) = 256 * m" if "Load prt bmp = Inr c"
  proof -
    from Load_Inr [OF that] obtain s1 where "LoadPalettes prt = Inr (palettes c, s1)" by blast
    from LoadPalettes_fits [OF this] show ?thesis by (simp add: list_all_iff)
  qed
  from A load_palette_written_layout [of payload] show ?thesis by blast
qed

theorem palette_color_count_witness:
  "Load prt_palette_head_0 bmp_empty = Inr container_empty_palette
   \<and> (\<exists>m. length (colors (hd (palettes container_empty_palette))) = 256 * m)
   \<and> 1024 \<le> length (replicate 1024 (0::byte))
   \<and> (\<exists>cols. load_palette_tags 2 []
           (tag_PPAL @ le_bytes 4 1048 @ tag_head @ le_bytes 4 4 @ le_bytes 4 1 @
            tag_data @ le_bytes 4 1024 @ replicate 1024 0) = Inr (cols, []) \<and>
         length cols = 256)"
proof -
  have l: "Load prt_palette_head_0 bmp_empty = Inr container_empty_palette" by code_simp
  have n: "1024 \<le> length (replicate 1024 (0::byte))" by simp
  from palette_color_count [of prt_palette_head_0 bmp_empty container_empty_palette, THEN conjunct1] l
  have 1: "\<exists>m. length (colors (hd (palettes container_empty_palette))) = 256 * m"
    by (simp add: container_empty_palette_def)
  from palette_color_count [of _ _ _ "replicate 1024 0", THEN conjunct2] n
  have 2: "\<exists>cols. load_palette_tags 2 []
           (tag_PPAL @ le_bytes 4 1048 @ tag_head @ le_bytes 4 4 @ le_bytes 4 1 @
            tag_data @ le_bytes 4 1024 @ replicate 1024 0) = Inr (cols, []) \<and>
         length cols = 256"
    by simp
  from l 1 n 2 show ?thesis by blast
qed

subsection \<open>The pixel buffer of a bitmap\<close>

text \<open>
  A bitmap of width 5 and height 2 whose record gives the padded width 4 is loaded
  with a pixel buffer of 8 bytes, not 16.
\<close>

theorem bitmap_data_length_counterexample:
  "Load prt_padded_4 bmp_16_bytes = Inr container_padded_4
   \<and> bmp_width (hd (bitmaps container_padded_4)) = 5
   \<and> bmp_height (hd (bitmaps container_padded_4)) = 2
   \<and> ((5 + 3) AND NOT 3) * 2 = (16::int)
   \<and> length (bmp_data (hd (bitmaps container_padded_4))) = 8"
  by code_simp

lemma load_bitmap_Inr:
  assumes "load_bitmap i pals bmp ds s = Inr (b, s')"
  shows "20 \<le> length s \<and> s' = drop 20 s \<and>
     bmp_width b = unpack_I (take 4 (drop 12 s)) \<and>
     bmp_height b = unpack_I (take 4 (drop 8 s)) \<and>
     bmp_data b = take (nat (unpack_I (take 4 s) * unpack_I (take 4 (drop 8 s))))
                    (drop (nat (unpack_I (take 4 (drop 4 s)) + ds)) bmp)"
proof -
  from assms have len: "20 \<le> length s"
    by (auto simp: load_bitmap_def split: sum.splits dest: ReadAndUnpack_length)
  from assms show ?thesis
    by (auto simp: load_bitmap_cases [OF len] Let_def len split: if_splits)
qed

lemma load_bitmaps_loop_nth:
  "load_bitmaps_loop n i pals bmp ds s = Inr (bs, s') \<Longrightarrow> k < n \<Longrightarrow>
     \<exists>s''. load_bitmap (i + k) pals bmp ds (drop (20 * k) s) = Inr (bs ! k, s'')"
proof (induction n arbitrary: i s bs k)
  case 0
  then show ?case by simp
next
  case (Suc n)
  from Suc.prems(1) obtain b s1 bs1 where
    a: "load_bitmap i pals bmp ds s = Inr (b, s1)" and
    l: "load_bitmaps_loop n (Suc i) pals bmp ds s1 = Inr (bs1, s')" and
    c: "bs = b # bs1"
    by (auto split: sum.splits prod.splits)
  show ?case
  proof (cases k)
    case 0
    with a c show ?thesis by simp
  next
    case (Suc j)
    with Suc.prems(2) have "j < n" by simp
    from Suc.IH [OF l this] load_bitmap_Inr [OF a] c Suc show ?thesis
      by (simp add: add.commute)
  qed
qed

lemma LoadBitmaps_Inr:
  assumes "LoadBitmaps bmp pals s = Inr (bs, s')"
  shows "14 \<le> length bmp \<and> take 2 bmp = tag_BM \<and> 4 \<le> length s \<and>
     load_bitmaps_loop (nat (unpack_I (take 4 s))) 0 pals bmp (unpack_I (take 4 (drop 10 bmp))) (drop 4 s) =
       Inr (bs, s')"
proof -
  from assms have 1: "14 \<le> length bmp" and 2: "take 2 bmp = tag_BM"
    by (auto simp: LoadBitmaps_def Let_def split: if_splits)
  from assms 1 2 have 3: "4 \<le> length s"
    by (auto simp: LoadBitmaps_def Let_def split: if_splits sum.splits dest: ReadAndUnpack_length)
  from assms LoadBitmaps_table [OF 1 2 3] 1 2 3 show ?thesis by simp
qed

text \<open>
  C9, as the code has it. The pixel buffer of a loaded bitmap is what the companion
  blob holds from \<open>offset + data_start\<close> on, at most \<open>padded_w * h\<close> bytes, where
  \<open>padded_w\<close>, \<open>offset\<close> and \<open>h\<close> are fields of its record in the stream: the padded
  width is read, not computed from the width. The length is
  \<open>((width + 3) & ~3) * height\<close> when the record's padded width is \<open>(width + 3) & ~3\<close>
  and the blob holds that many bytes there.
\<close>

theorem bitmap_data_length:
  assumes "LoadBitmaps bmp pals s = Inr (bms, s')" and "k < length bms"
  shows "bmp_width (bms ! k) = unpack_I (take 4 (drop (4 + 20 * k + 12) s))
     \<and> bmp_height (bms ! k) = unpack_I (take 4 (drop (4 + 20 * k + 8) s))
     \<and> bmp_data (bms ! k) =
         take (nat (unpack_I (take 4 (drop (4 + 20 * k) s)) * bmp_height (bms ! k)))
           (drop (nat (unpack_I (take 4 (drop (4 + 20 * k + 4) s)) + unpack_I (take 4 (drop 10 bmp)))) bmp)
     \<and> length (bmp_data (bms ! k)) =
         min (nat (unpack_I (take 4 (drop (4 + 20 * k) s)) * bmp_height (bms ! k)))
           (length bmp - nat (unpack_I (take 4 (drop (4 + 20 * k + 4) s)) + unpack_I (take 4 (drop 10 bmp))))
     \<and> (unpack_I (take 4 (drop (4 + 20 * k) s)) = (bmp_width (bms ! k) + 3) AND NOT 3 \<and>
        nat (unpack_I (take 4 (drop (4 + 20 * k + 4) s)) + unpack_I (take 4 (drop 10 bmp))) +
          nat (((bmp_width (bms ! k) + 3) AND NOT 3) * bmp_height (bms ! k)) \<le> length bmp \<longrightarrow>
        int (length (bmp_data (bms ! k))) = ((bmp_width (bms ! k) + 3) AND NOT 3) * bmp_height (bms ! k))"
proof -
  from LoadBitmaps_Inr [OF assms(1)] have
    l: "load_bitmaps_loop (nat (unpack_I (take 4 s))) 0 pals bmp (unpack_I (take 4 (drop 10 bmp))) (drop 4 s) =
       Inr (bms, s')" by simp
  from load_bitmaps_loop_fits [OF l] assms(2) have "k < nat (unpack_I (take 4 s))" by simp
  from load_bitmaps_loop_nth [OF l this] obtain s'' where
    "load_bitmap (0 + k) pals bmp (unpack_I (take 4 (drop 10 bmp))) (drop (20 * k) (drop 4 s)) =
       Inr (bms ! k, s'')" by blast
  from load_bitmap_Inr [OF this] have
    w: "bmp_width (bms ! k) = unpack_I (take 4 (drop (4 + 20 * k + 12) s))" and
    h: "bmp_height (bms ! k) = unpack_I (take 4 (drop (4 + 20 * k + 8) s))" and
    d: "bmp_data (bms ! k) =
         take (nat (unpack_I (take 4 (drop (4 + 20 * k) s)) * bmp_height (bms ! k)))
           (drop (nat (unpack_I (take 4 (drop (4 + 20 * k + 4) s)) + unpack_I (take 4 (drop 10 bmp)))) bmp)"
    by (simp_all add: add.commute add.left_commute)
  have n: "0 \<le> unpack_I (take 4 (drop (4 + 20 * k) s)) * bmp_height (bms ! k)"
    unfolding h using unpack_I_nonneg by simp
  have len: "length (bmp_data (bms ! k)) =
         min (nat (unpack_I (take 4 (drop (4 + 20 * k) s)) * bmp_height (bms ! k)))
           (length bmp - nat (unpack_I (take 4 (drop (4 + 20 * k + 4) s)) + unpack_I (take 4 (drop 10 bmp))))"
    by (subst d) simp
  have e: "int (length (bmp_data (bms ! k))) = ((bmp_width (bms ! k) + 3) AND NOT 3) * bmp_height (bms ! k)"
    if "unpack_I (take 4 (drop (4 + 20 * k) s)) = (bmp_width (bms ! k) + 3) AND NOT 3"
      and "nat (unpack_I (take 4 (drop (4 + 20 * k + 4) s)) + unpack_I (take 4 (drop 10 bmp))) +
          nat (((bmp_width (bms ! k) + 3) AND NOT 3) * bmp_height (bms ! k)) \<le> length bmp"
    using that n len by simp
  from w h d len e show ?thesis by blast
qed

theorem bitmap_data_length_witness:
  "LoadBitmaps bmp_16_bytes [palette_example] table_padded_8 = Inr ([bitmap_padded_8], [])
   \<and> 0 < length [bitmap_padded_8]
   \<and> unpack_I (take 4 (drop (4 + 20 * 0) table_padded_8)) = (bmp_width bitmap_padded_8 + 3) AND NOT 3
   \<and> nat (unpack_I (take 4 (drop (4 + 20 * 0 + 4) table_padded_8)) + unpack_I (take 4 (drop 10 bmp_16_bytes))) +
          nat (((bmp_width bitmap_padded_8 + 3) AND NOT 3) * bmp_height bitmap_padded_8) \<le> length bmp_16_bytes
   \<and> bmp_width bitmap_padded_8 = 5 \<and> bmp_height bitmap_padded_8 = 2
   \<and> int (length (bmp_data bitmap_padded_8)) = ((5 + 3) AND NOT 3) * 2
   \<and> length (bmp_data bitmap_padded_8) = 16"
proof -
  have l: "LoadBitmaps bmp_16_bytes [palette_example] table_padded_8 = Inr ([bitmap_padded_8], [])"
    by code_simp
  have k: "0 < length [bitmap_padded_8]" by simp
  have p: "unpack_I (take 4 (drop (4 + 20 * 0) table_padded_8)) = (bmp_width bitmap_padded_8 + 3) AND NOT 3"
    by code_simp
  have q: "nat (unpack_I (take 4 (drop (4 + 20 * 0 + 4) table_padded_8)) + unpack_I (take 4 (drop 10 bmp_16_bytes))) +
          nat (((bmp_width bitmap_padded_8 + 3) AND NOT 3) * bmp_height bitmap_padded_8) \<le> length bmp_16_bytes"
    by code_simp
  have w: "bmp_width bitmap_padded_8 = 5" "bmp_height bitmap_padded_8 = 2"
    by (simp_all add: bitmap_padded_8_def)
  note t = bitmap_data_length [OF l k, unfolded nth_Cons_0]
  from t [THEN conjunct2, THEN conjunct2, THEN conjunct2, THEN conjunct2] p q
  have "int (length (bmp_data bitmap_padded_8)) =
      ((bmp_width bitmap_padded_8 + 3) AND NOT 3) * bmp_height bitmap_padded_8"
    by blast
  then have e: "int (length (bmp_data bitmap_padded_8)) = ((5 + 3) AND NOT 3) * 2"
    unfolding w .
  have "length (bmp_data bitmap_padded_8) = 16" by (simp add: bitmap_padded_8_def)
  with l k p q w e show ?thesis by blast
qed

subsection \<open>Writing and loading again\<close>

lemma unpack_h_le_bytes: "fits_h v \<Longrightarrow> unpack_h (le_bytes 2 (v mod 65536)) = v"
proof -
  assume f: "fits_h v"
  have "0 \<le> v mod 65536" "v mod 65536 < 256 ^ 2" by simp_all
  then have u: "le_uint (le_bytes 2 (v mod 65536)) = v mod 65536" by (rule le_uint_le_bytes)
  show ?thesis
  proof (cases "0 \<le> v")
    case True
    with f have "v mod 65536 = v" by (simp add: fits_h_def)
    with f u True show ?thesis by (simp add: unpack_h_def fits_h_def)
  next
    case False
    with f have "0 \<le> v + 65536" "v + 65536 < 65536" by (simp_all add: fits_h_def)
    from mod_pos_pos_trivial [OF this] have "v mod 65536 = v + 65536" by simp
    with f u False show ?thesis by (simp add: unpack_h_def fits_h_def)
  qed
qed

lemma write_each_bytes:
  "\<forall>x\<in>set xs. f x = (g x, None) \<Longrightarrow> write_each f xs = (concat (map g xs), None)"
  by (induction xs) simp_all

lemma write_color_bytes: "color_fits c \<Longrightarrow> write_color c = (color_bytes c, None)"
  by (simp add: color_fits_def write_color_def color_bytes_def pack_B_fits)

lemma color_of_color_bytes: "color_fits c \<Longrightarrow> color_of_entry (color_bytes c) = c"
  by (simp add: color_fits_def color_of_entry_def color_bytes_def unpack_B_word_of_int)

lemma load_colors_written:
  "list_all color_fits cs \<Longrightarrow>
     load_colors (length cs) cols (concat (map color_bytes cs) @ rest) = Inr (cols @ cs, rest)"
proof (induction cs arbitrary: cols)
  case Nil
  then show ?case by simp
next
  case (Cons c cs)
  have "length (color_bytes c) = 4" by (simp add: color_bytes_def)
  then have "ReadAndUnpack 4 (color_bytes c @ concat (map color_bytes cs) @ rest) =
      Inr (color_bytes c, concat (map color_bytes cs) @ rest)"
    by (rule ReadAndUnpack_append)
  with Cons show ?case by (simp add: color_of_color_bytes)
qed

lemma length_subframe_bytes [simp]: "length (subframe_bytes sf) = 8"
  by (simp add: subframe_bytes_def)

lemma write_subframe_bytes: "subframe_fits sf \<Longrightarrow> write_subframe sf = (subframe_bytes sf, None)"
  by (simp add: subframe_fits_def write_subframe_def subframe_bytes_def pack_B_fits pack_h_fits)

lemma subframe_of_bytes: "subframe_fits sf \<Longrightarrow> subframe_of (subframe_bytes sf) = sf"
  by (cases "sf_offset sf")
     (simp add: subframe_fits_def subframe_of_def subframe_bytes_def unpack_B_word_of_int
        unpack_h_le_bytes nth_append)

lemma load_subframes_written:
  "list_all subframe_fits sfs \<Longrightarrow>
     load_subframes (length sfs) n (concat (map subframe_bytes sfs) @ rest) =
       Inr (sfs, n + int (length sfs), rest)"
proof (induction sfs arbitrary: n)
  case Nil
  then show ?case by simp
next
  case (Cons sf sfs)
  have "ReadAndUnpack 8 (subframe_bytes sf @ concat (map subframe_bytes sfs) @ rest) =
      Inr (subframe_bytes sf, concat (map subframe_bytes sfs) @ rest)"
    by (rule ReadAndUnpack_append) simp
  with Cons show ?case by (simp add: subframe_of_bytes)
qed

lemma length_appendix_bytes [simp]: "length (appendix_bytes ap) = 16"
  by (simp add: appendix_bytes_def)

lemma appendix_fits_nth:
  "appendix_fits ap \<Longrightarrow>
     fits_I (ap ! 0) \<and> fits_I (ap ! 1) \<and> fits_I (ap ! 2) \<and> fits_I (ap ! 3) \<and>
     ap = [ap ! 0, ap ! 1, ap ! 2, ap ! 3]"
proof -
  assume a: "appendix_fits ap"
  then have "length ap = Suc (Suc (Suc (Suc 0)))" by (simp add: appendix_fits_def)
  then obtain a0 a1 a2 a3 where e: "ap = [a0, a1, a2, a3]"
    by (auto simp: length_Suc_conv)
  with a show ?thesis by (simp add: appendix_fits_def)
qed

lemma write_appendix_bytes: "appendix_fits ap \<Longrightarrow> write_appendix ap = (appendix_bytes ap, None)"
  using appendix_fits_nth [of ap]
  by (simp add: write_appendix_def appendix_bytes_def pack_I_fits appendix_fits_def)

lemma appendix_of_bytes: "appendix_fits ap \<Longrightarrow> appendix_of (appendix_bytes ap) = ap"
proof -
  assume a: "appendix_fits ap"
  note n = appendix_fits_nth [OF a]
  have "appendix_of (appendix_bytes ap) = [ap ! 0, ap ! 1, ap ! 2, ap ! 3]"
    using n by (simp add: appendix_of_def appendix_bytes_def unpack_I_le_bytes)
  with n show ?thesis by simp
qed

lemma load_appendix_written:
  "list_all appendix_fits aps \<Longrightarrow>
     load_appendix (length aps) n (concat (map appendix_bytes aps) @ rest) =
       Inr (aps, n + int (length aps), rest)"
proof (induction aps arbitrary: n)
  case Nil
  then show ?case by simp
next
  case (Cons ap aps)
  have "ReadAndUnpack 16 (appendix_bytes ap @ concat (map appendix_bytes aps) @ rest) =
      Inr (appendix_bytes ap, concat (map appendix_bytes aps) @ rest)"
    by (rule ReadAndUnpack_append) simp
  with Cons show ?case by (simp add: appendix_of_bytes)
qed

lemma write_palette_bytes:
  assumes "list_all color_fits (colors p)"
  shows "write_palette p = (palette_bytes p, None)"
proof -
  have "write_each write_color (colors p) = (concat (map color_bytes (colors p)), None)"
    using assms by (intro write_each_bytes) (simp add: list_all_iff write_color_bytes)
  then show ?thesis
    by (simp add: write_palette_def palette_bytes_def pack_I_def)
qed

lemma load_palette_written:
  assumes "list_all color_fits (colors p)" and "length (colors p) = 256"
  shows "load_palette_tags 2 [] (palette_bytes p @ rest) = Inr (colors p, rest)"
proof -
  from load_colors_written [OF assms(1), of "[]" rest] assms(2)
  have "load_colors 256 [] (concat (map color_bytes (colors p)) @ rest) = Inr (colors p, rest)"
    by simp
  then show ?thesis
    by (simp add: palette_bytes_def tags_PPAL tags_head tags_data tags_done fits_I_def)
qed

lemma load_palettes_written:
  "list_all (\<lambda>p. list_all color_fits (colors p) \<and> length (colors p) = 256) ps \<Longrightarrow>
     load_palettes_loop (length ps) (concat (map palette_bytes ps) @ rest) = Inr (ps, rest)"
proof (induction ps)
  case Nil
  then show ?case by simp
next
  case (Cons p ps)
  then have "load_palette_tags 2 [] (palette_bytes p @ concat (map palette_bytes ps) @ rest) =
      Inr (colors p, concat (map palette_bytes ps) @ rest)"
    by (intro load_palette_written) simp_all
  with Cons show ?case by simp
qed

lemma WritePalettes_bytes:
  assumes "fits_I (int (length ps))" and "list_all (\<lambda>p. list_all color_fits (colors p)) ps"
  shows "WritePalettes ps =
     (tag_CPAL @ le_bytes 4 (int (length ps)) @ concat (map palette_bytes ps), None)"
proof -
  have "write_each write_palette ps = (concat (map palette_bytes ps), None)"
    using assms(2) by (intro write_each_bytes) (simp add: list_all_iff write_palette_bytes)
  with assms(1) show ?thesis
    by (simp add: WritePalettes_def pack_I_fits)
qed

lemma LoadPalettes_written:
  assumes "fits_I (int (length ps))"
    and "list_all (\<lambda>p. list_all color_fits (colors p) \<and> length (colors p) = 256) ps"
  shows "LoadPalettes (tag_CPAL @ le_bytes 4 (int (length ps)) @ concat (map palette_bytes ps) @ rest) =
     Inr (ps, rest)"
  using assms load_palettes_written [OF assms(2), of rest]
  by (simp add: LoadPalettes_def ReadAndUnpack_8 unpack_I_le_bytes)

lemma load_optional_pair_written_none:
  assumes "0 \<le> v" "v \<le> 127"
  shows "load_optional_pair (unpack_B (word_of_int v)) s = Inr (v, None, None, s)"
proof -
  from assms have "unpack_B (word_of_int v) = v"
    by (simp add: unpack_B_word_of_int fits_B_def)
  moreover from assms have "v AND 0x80 = 0" by (simp add: and_0x80_zero)
  ultimately show ?thesis by (simp add: load_optional_pair_def)
qed

lemma load_optional_pair_written_some:
  assumes "0 \<le> v" "v \<le> 127" "fits_B x" "fits_B y"
  shows "load_optional_pair (unpack_B (word_of_int (v OR 0x80))) (word_of_int x # word_of_int y # s) =
     Inr (v, Some x, Some y, s)"
proof -
  from assms have o: "v OR 0x80 = v + 128" by (simp add: or_0x80)
  from assms have "fits_B (v + 128)" by (simp add: fits_B_def)
  from unpack_B_word_of_int [OF this] have u: "unpack_B (word_of_int (v OR 0x80)) = v + 128"
    unfolding o .
  from assms have "(v + 128) AND 0x80 \<noteq> 0" by (simp add: and_0x80_zero)
  moreover from assms have "(v + 128) AND 0x7F = v" by (simp add: and_0x7F)
  ultimately show ?thesis
    using assms(3,4) by (simp add: u load_optional_pair_def ReadAndUnpack_def unpack_B_word_of_int)
qed

lemma load_optional_pair_written:
  assumes "pair_fits a b" "0 \<le> v" "v \<le> 127"
  shows "load_optional_pair (unpack_B (word_of_int (flagged a b v))) (pair_bytes a b @ s) =
     Inr (v, a, b, s)"
proof (cases a)
  case None
  with assms(1) have "b = None" by (cases b) simp_all
  with None assms(2,3) show ?thesis
    by (simp add: flagged_def pair_bytes_def load_optional_pair_written_none)
next
  case (Some x)
  with assms(1) obtain y where b: "b = Some y" by (cases b) simp_all
  with Some assms(1) have "fits_B x" "fits_B y" by simp_all
  from load_optional_pair_written_some [OF assms(2,3) this] Some b show ?thesis
    by (simp add: flagged_def pair_bytes_def)
qed

lemma fits_B_flagged: "0 \<le> v \<Longrightarrow> v \<le> 127 \<Longrightarrow> fits_B (flagged a b v)"
  by (simp add: flagged_def fits_B_def or_0x80)

lemma emit_optional_pair:
  "pair_fits a b \<Longrightarrow>
     (if a \<noteq> None \<or> b \<noteq> None then emit (pack_optional_pair a b) else ([], None)) =
       (pair_bytes a b, None)"
  by (simp add: pair_bytes_def write_optional_pair_fits)

lemma write_frame_bytes:
  assumes "frame_fits f"
  shows "write_frame f = (frame_bytes f, None)"
proof -
  from assms have
    n: "0 \<le> int (length (frame_subframes f))" "int (length (frame_subframes f)) \<le> 127" and
    u: "0 \<le> frame_unknown f" "frame_unknown f \<le> 127" and
    p12: "pair_fits (optional1 f) (optional2 f)" and p34: "pair_fits (optional3 f) (optional4 f)" and
    sf: "list_all subframe_fits (frame_subframes f)"
    by (simp_all add: frame_fits_def)
  have ws: "write_each write_subframe (frame_subframes f) =
      (concat (map subframe_bytes (frame_subframes f)), None)"
    using sf by (intro write_each_bytes) (simp add: list_all_iff write_subframe_bytes)
  have 1: "pack_B (flagged (optional1 f) (optional2 f) (int (length (frame_subframes f)))) =
      Inr [word_of_int (flagged (optional1 f) (optional2 f) (int (length (frame_subframes f))))]"
    by (rule pack_B_fits [OF fits_B_flagged [OF n]])
  have 2: "pack_B (flagged (optional3 f) (optional4 f) (frame_unknown f)) =
      Inr [word_of_int (flagged (optional3 f) (optional4 f) (frame_unknown f))]"
    by (rule pack_B_fits [OF fits_B_flagged [OF u]])
  have "write_frame f =
      seqws [emit (pack_fields [pack_B (flagged (optional1 f) (optional2 f) (int (length (frame_subframes f)))),
                                pack_B (flagged (optional3 f) (optional4 f) (frame_unknown f))]),
             (if optional1 f \<noteq> None \<or> optional2 f \<noteq> None
              then emit (pack_optional_pair (optional1 f) (optional2 f)) else ([], None)),
             (if optional3 f \<noteq> None \<or> optional4 f \<noteq> None
              then emit (pack_optional_pair (optional3 f) (optional4 f)) else ([], None)),
             write_each write_subframe (frame_subframes f)]"
    by (simp add: write_frame_def Let_def flagged_def)
  also have "\<dots> = (frame_bytes f, None)"
    unfolding emit_optional_pair [OF p12] emit_optional_pair [OF p34] ws 1 2
    by (simp add: frame_bytes_def)
  finally show ?thesis .
qed

lemma load_frame_written:
  assumes "frame_fits f"
  shows "load_frame n (frame_bytes f @ rest) = Inr (f, n + int (length (frame_subframes f)), rest)"
proof -
  from assms have
    n: "0 \<le> int (length (frame_subframes f))" "int (length (frame_subframes f)) \<le> 127" and
    u: "0 \<le> frame_unknown f" "frame_unknown f \<le> 127" and
    p12: "pair_fits (optional1 f) (optional2 f)" and p34: "pair_fits (optional3 f) (optional4 f)" and
    sf: "list_all subframe_fits (frame_subframes f)"
    by (simp_all add: frame_fits_def)
  note a = load_optional_pair_written [OF p12 n] and b = load_optional_pair_written [OF p34 u]
    and c = load_subframes_written [OF sf]
  show ?thesis
    by (simp add: load_frame_def frame_bytes_def ReadAndUnpack_def a b c)
qed

lemma load_frames_written:
  "list_all frame_fits fs \<Longrightarrow>
     load_frames (length fs) nf nsf (concat (map frame_bytes fs) @ rest) =
       Inr (fs, nf + int (length fs), nsf + (\<Sum>f\<leftarrow>fs. int (length (frame_subframes f))), rest)"
proof (induction fs arbitrary: nf nsf)
  case Nil
  then show ?case by simp
next
  case (Cons f fs)
  then show ?case by (simp add: load_frame_written)
qed

lemma length_animation_header_bytes [simp]: "length (animation_header_bytes a) = 36"
  by (simp add: animation_header_bytes_def)

lemma write_animation_bytes:
  assumes "animation_fits a"
  shows "write_animation a = (animation_bytes a, None)"
proof -
  have wf: "write_each write_frame (anim_frames a) = (concat (map frame_bytes (anim_frames a)), None)"
    using assms
    by (intro write_each_bytes) (simp add: animation_fits_def list_all_iff write_frame_bytes)
  have wa: "write_each write_appendix (anim_appendix a) =
      (concat (map appendix_bytes (anim_appendix a)), None)"
    using assms
    by (intro write_each_bytes) (simp add: animation_fits_def list_all_iff write_appendix_bytes)
  have h: "emit (pack_fields [pack_I (anim_unknown1 a),
                                pack_I (rect_left (anim_bounding_box a)), pack_I (rect_top (anim_bounding_box a)),
                                pack_I (rect_right (anim_bounding_box a)), pack_I (rect_bottom (anim_bounding_box a)),
                                pack_I (pt_x (anim_offset a)), pack_I (pt_y (anim_offset a)),
                                pack_I (anim_unknown2 a),
                                pack_I (int (length (anim_frames a)))]) =
      (animation_header_bytes a, None)"
    using assms by (simp add: animation_fits_def pack_I_fits animation_header_bytes_def)
  from assms have "fits_I (anim_unknown3 a)" unfolding animation_fits_def by blast
  then have u: "emit (pack_I (anim_unknown3 a)) = (le_bytes 4 (anim_unknown3 a), None)"
    by (simp add: pack_I_fits)
  show ?thesis
    unfolding write_animation_def Let_def h wf wa u
    by (simp add: animation_bytes_def)
qed

lemma animation_of_header:
  assumes "animation_fits a"
  shows "unpack_I (take 4 (animation_header_bytes a)) = anim_unknown1 a"
    "unpack_I (take 4 (drop 4 (animation_header_bytes a))) = rect_left (anim_bounding_box a)"
    "unpack_I (take 4 (drop 8 (animation_header_bytes a))) = rect_top (anim_bounding_box a)"
    "unpack_I (take 4 (drop 12 (animation_header_bytes a))) = rect_right (anim_bounding_box a)"
    "unpack_I (take 4 (drop 16 (animation_header_bytes a))) = rect_bottom (anim_bounding_box a)"
    "unpack_I (take 4 (drop 20 (animation_header_bytes a))) = pt_x (anim_offset a)"
    "unpack_I (take 4 (drop 24 (animation_header_bytes a))) = pt_y (anim_offset a)"
    "unpack_I (take 4 (drop 28 (animation_header_bytes a))) = anim_unknown2 a"
    "unpack_I (take 4 (drop 32 (animation_header_bytes a))) = int (length (anim_frames a))"
  using assms by (simp_all add: animation_fits_def animation_header_bytes_def unpack_I_le_bytes)

lemma load_animation_written:
  assumes "animation_fits a"
  shows "load_animation nf nsf na (animation_bytes a @ rest) =
     Inr (a, nf + int (length (anim_frames a)),
          nsf + (\<Sum>f\<leftarrow>anim_frames a. int (length (frame_subframes f))),
          na + int (length (anim_appendix a)), rest)"
proof -
  have r: "ReadAndUnpack 36 (animation_bytes a @ rest) =
      Inr (animation_header_bytes a,
           concat (map frame_bytes (anim_frames a)) @
           le_bytes 4 (anim_unknown3 a) @ concat (map appendix_bytes (anim_appendix a)) @ rest)"
    using ReadAndUnpack_append [of "animation_header_bytes a" 36] by (simp add: animation_bytes_def)
  from assms have ff: "list_all frame_fits (anim_frames a)"
    and af: "list_all appendix_fits (anim_appendix a)"
    and u3: "fits_I (anim_unknown3 a)" "anim_unknown3 a = int (length (anim_appendix a))"
    unfolding animation_fits_def by blast+
  note lf = load_frames_written [OF ff]
  note la = load_appendix_written [OF af]
  have ru: "ReadAndUnpack 4 (le_bytes 4 (anim_unknown3 a) @ s) = Inr (le_bytes 4 (anim_unknown3 a), s)" for s
    by (rule ReadAndUnpack_append) simp
  have e: "\<lparr>anim_unknown1 = anim_unknown1 a,
      anim_bounding_box = Rect (rect_left (anim_bounding_box a)) (rect_top (anim_bounding_box a))
         (rect_right (anim_bounding_box a)) (rect_bottom (anim_bounding_box a)),
      anim_offset = Point (pt_x (anim_offset a)) (pt_y (anim_offset a)),
      anim_unknown2 = anim_unknown2 a, anim_frames = anim_frames a,
      anim_appendix = anim_appendix a, anim_unknown3 = anim_unknown3 a\<rparr> = a"
    by simp
  have nu: "nat (anim_unknown3 a) = length (anim_appendix a)"
    using u3 by simp
  have h9: "unpack_I (drop 32 (animation_header_bytes a)) = int (length (anim_frames a))"
    using animation_of_header(9) [OF assms] by simp
  show ?thesis
    unfolding load_animation_def r
    by (simp add: animation_of_header [OF assms] h9 lf ru nu la unpack_I_le_bytes [OF u3(1)] e)
qed

lemma load_animations_written:
  "list_all animation_fits as \<Longrightarrow>
     \<exists>na'. load_animations (length as) nf nsf na (concat (map animation_bytes as) @ rest) =
       Inr (as, nf + count_frames as, nsf + count_subframes as, na', rest)"
proof (induction as arbitrary: nf nsf na)
  case Nil
  then show ?case by (simp add: count_frames_def count_subframes_def)
next
  case (Cons a as)
  then have a: "animation_fits a" and as: "list_all animation_fits as" by simp_all
  from Cons.IH [OF as, of "nf + int (length (anim_frames a))"
      "nsf + (\<Sum>f\<leftarrow>anim_frames a. int (length (frame_subframes f)))"
      "na + int (length (anim_appendix a))"]
  obtain na' where
    "load_animations (length as) (nf + int (length (anim_frames a)))
       (nsf + (\<Sum>f\<leftarrow>anim_frames a. int (length (frame_subframes f))))
       (na + int (length (anim_appendix a))) (concat (map animation_bytes as) @ rest) =
     Inr (as, nf + int (length (anim_frames a)) + count_frames as,
          nsf + (\<Sum>f\<leftarrow>anim_frames a. int (length (frame_subframes f))) + count_subframes as, na', rest)"
    by blast
  then show ?case
    by (simp add: load_animation_written [OF a] count_frames_def count_subframes_def add.assoc)
qed

lemma WriteAnimations_bytes:
  assumes "container_fits c"
  shows "WriteAnimations c = (animations_bytes c, None)"
proof -
  have w: "write_each write_animation (animations c) = (concat (map animation_bytes (animations c)), None)"
    using assms
    by (intro write_each_bytes) (simp add: container_fits_def list_all_iff write_animation_bytes)
  from assms have "fits_I (int (length (animations c)))" "fits_I (count_frames (animations c))"
    "fits_I (count_subframes (animations c))" "fits_I (num_optional_entries c)"
    by (simp_all add: container_fits_def)
  then show ?thesis
    unfolding WriteAnimations_def w by (simp add: pack_I_fits animations_bytes_def)
qed

lemma LoadAnimations_written:
  assumes "container_fits c"
  shows "LoadAnimations (animations_bytes c) =
     Inr (animations c, num_optional_entries c, extra_data c)"
proof -
  from assms have f: "fits_I (int (length (animations c)))" "fits_I (count_frames (animations c))"
    "fits_I (count_subframes (animations c))" "fits_I (num_optional_entries c)"
    and a: "list_all animation_fits (animations c)"
    by (simp_all add: container_fits_def)
  have len: "16 \<le> length (animations_bytes c)" by (simp add: animations_bytes_def)
  have h: "unpack_I (take 4 (animations_bytes c)) = int (length (animations c))"
    "unpack_I (take 4 (drop 4 (animations_bytes c))) = count_frames (animations c)"
    "unpack_I (take 4 (drop 8 (animations_bytes c))) = count_subframes (animations c)"
    "unpack_I (take 4 (drop 12 (animations_bytes c))) = num_optional_entries c"
    "drop 16 (animations_bytes c) = concat (map animation_bytes (animations c)) @ extra_data c"
    using f by (simp_all add: animations_bytes_def unpack_I_le_bytes)
  from load_animations_written [OF a, of 0 0 0 "extra_data c"] obtain na' where
    "load_animations (length (animations c)) 0 0 0
       (concat (map animation_bytes (animations c)) @ extra_data c) =
     Inr (animations c, count_frames (animations c), count_subframes (animations c), na', extra_data c)"
    by auto
  then show ?thesis
    by (simp add: LoadAnimations_header [OF len] h)
qed

lemma length_bitmap_bytes [simp]: "length (bitmap_bytes b off) = 20"
  by (simp add: bitmap_bytes_def)

lemma fits_I_padded:
  assumes "fits_I w" "w \<le> 4294967292"
  shows "fits_I ((w + 3) AND NOT 3)"
proof -
  from assms have 0: "0 \<le> w + 3" by (simp add: fits_I_def)
  from AND_lower [OF 0, of "NOT 3"] AND_upper1 [OF 0, of "NOT 3"] assms(2)
  show ?thesis by (simp add: fits_I_def)
qed

lemma emit_bitmap:
  assumes "bitmap_fits pals b" "bitmap_writable b" "fits_I (int off)"
  shows "emit (pack_fields [pack_I ((bmp_width b + 3) AND NOT 3), pack_I (int off),
                            pack_I (bmp_height b), pack_I (bmp_width b),
                            pack_h (bmp_image_type b), pack_h (bmp_palette_id b)]) =
     (bitmap_bytes b off, None)"
proof -
  from assms(1) have f: "fits_I (bmp_width b)" "fits_I (bmp_height b)" "fits_h (bmp_image_type b)"
    "fits_h (bmp_palette_id b)"
    unfolding bitmap_fits_def by blast+
  from assms(2) have "bmp_width b \<le> 4294967292" unfolding bitmap_writable_def by blast
  from fits_I_padded [OF f(1) this] f assms(3) show ?thesis
    by (simp add: pack_I_fits pack_h_fits bitmap_bytes_def)
qed

lemma write_bitmaps_loop_bytes:
  "list_all (bitmap_fits pals) bs \<Longrightarrow> list_all bitmap_writable bs \<Longrightarrow>
   offsets_fit bs (length m) \<Longrightarrow>
     write_bitmaps_loop bs m = ((table_bytes bs (length m), None), m @ concat (map bmp_data bs))"
proof (induction bs arbitrary: m)
  case Nil
  then show ?case by simp
next
  case (Cons b bs)
  from Cons.prems have b: "bitmap_fits pals b" "bitmap_writable b" "fits_I (int (length m))"
    by simp_all
  note e = emit_bitmap [OF b]
  from Cons.prems have r: "list_all (bitmap_fits pals) bs" "list_all bitmap_writable bs"
    "offsets_fit bs (length (m @ bmp_data b))"
    by simp_all
  from Cons.IH [OF r] show ?case
    unfolding write_bitmaps_loop.simps Let_def e by simp
qed

lemma WriteBitmaps_bytes:
  assumes "fits_I (int (length bs))" "list_all (bitmap_fits pals) bs" "list_all bitmap_writable bs"
    "offsets_fit bs 0"
  shows "WriteBitmaps wbmp bs =
     ((le_bytes 4 (int (length bs)) @ table_bytes bs 0, None), Some (wbmp (concat (map bmp_data bs))))"
  using write_bitmaps_loop_bytes [OF assms(2,3), of "[]"] assms(1,4)
  by (simp add: WriteBitmaps_def pack_I_fits)

lemma bitmap_of_bytes:
  assumes "bitmap_fits pals b" "bitmap_writable b" "fits_I (int off)"
  shows "unpack_I (take 4 (bitmap_bytes b off @ rest)) = (bmp_width b + 3) AND NOT 3"
    "unpack_I (take 4 (drop 4 (bitmap_bytes b off @ rest))) = int off"
    "unpack_I (take 4 (drop 8 (bitmap_bytes b off @ rest))) = bmp_height b"
    "unpack_I (take 4 (drop 12 (bitmap_bytes b off @ rest))) = bmp_width b"
    "unpack_h (take 2 (drop 16 (bitmap_bytes b off @ rest))) = bmp_image_type b"
    "unpack_h (take 2 (drop 18 (bitmap_bytes b off @ rest))) = bmp_palette_id b"
proof -
  from assms(1) have f: "fits_I (bmp_width b)" "fits_I (bmp_height b)" "fits_h (bmp_image_type b)"
    "fits_h (bmp_palette_id b)"
    unfolding bitmap_fits_def by blast+
  from assms(2) have "bmp_width b \<le> 4294967292" unfolding bitmap_writable_def by blast
  note p = fits_I_padded [OF f(1) this]
  show "unpack_I (take 4 (bitmap_bytes b off @ rest)) = (bmp_width b + 3) AND NOT 3"
    "unpack_I (take 4 (drop 4 (bitmap_bytes b off @ rest))) = int off"
    "unpack_I (take 4 (drop 8 (bitmap_bytes b off @ rest))) = bmp_height b"
    "unpack_I (take 4 (drop 12 (bitmap_bytes b off @ rest))) = bmp_width b"
    "unpack_h (take 2 (drop 16 (bitmap_bytes b off @ rest))) = bmp_image_type b"
    "unpack_h (take 2 (drop 18 (bitmap_bytes b off @ rest))) = bmp_palette_id b"
    using p f assms(3)
    by (simp_all add: bitmap_bytes_def unpack_I_le_bytes unpack_h_le_bytes)
qed

lemma load_bitmap_written:
  assumes "bitmap_fits pals b" "bitmap_writable b" "fits_I (int off)" "0 \<le> ds"
    and "take (length (bmp_data b)) (drop (off + nat ds) blob) = bmp_data b"
  shows "load_bitmap i pals blob ds (bitmap_bytes b off @ rest) = Inr (b, rest)"
proof -
  have len: "20 \<le> length (bitmap_bytes b off @ rest)" by simp
  from assms(1) have pid: "0 \<le> bmp_palette_id b" "bmp_palette_id b < int (length pals)"
    "bmp_palette b = pals ! nat (bmp_palette_id b)"
    unfolding bitmap_fits_def by blast+
  from assms(2) have l: "int (length (bmp_data b)) = ((bmp_width b + 3) AND NOT 3) * bmp_height b"
    unfolding bitmap_writable_def by blast
  then have n: "nat (((bmp_width b + 3) AND NOT 3) * bmp_height b) = length (bmp_data b)"
    by (metis nat_int)
  from assms(1) have "int (length (bmp_data b)) \<le> 9223372036854775807"
    unfolding bitmap_fits_def by blast
  with l have ov: "\<not> 9223372036854775807 < ((bmp_width b + 3) AND NOT 3) * bmp_height b"
    by simp
  have o: "nat (int off + ds) = off + nat ds" using assms(4) by simp
  have e: "\<lparr>bmp_palette = bmp_palette b, bmp_palette_id = bmp_palette_id b,
      bmp_image_type = bmp_image_type b, bmp_width = bmp_width b, bmp_height = bmp_height b,
      bmp_data = bmp_data b\<rparr> = b" by simp
  show ?thesis
    unfolding load_bitmap_cases [OF len] Let_def bitmap_of_bytes [OF assms(1,2,3)] n o assms(5)
    using pid e ov by simp
qed

lemma take_append_split:
  assumes "take (length a + length b) xs = a @ b"
  shows "take (length a) xs = a \<and> take (length b) (drop (length a) xs) = b"
proof -
  from assms have "length (take (length a + length b) xs) = length a + length b"
    by simp
  then have "length a + length b \<le> length xs" by simp
  then have "length (take (length a) xs) = length a" by simp
  moreover have "take (length a) xs @ take (length b) (drop (length a) xs) = a @ b"
    using assms by (simp add: take_add)
  ultimately show ?thesis by (simp add: append_eq_append_conv)
qed

lemma load_bitmaps_written:
  "list_all (bitmap_fits pals) bs \<Longrightarrow> list_all bitmap_writable bs \<Longrightarrow> offsets_fit bs off \<Longrightarrow>
   0 \<le> ds \<Longrightarrow>
   take (length (concat (map bmp_data bs))) (drop (off + nat ds) blob) = concat (map bmp_data bs) \<Longrightarrow>
     load_bitmaps_loop (length bs) i pals blob ds (table_bytes bs off @ rest) = Inr (bs, rest)"
proof (induction bs arbitrary: off i)
  case Nil
  then show ?case by simp
next
  case (Cons b bs)
  from Cons.prems(5) have
    "take (length (bmp_data b) + length (concat (map bmp_data bs))) (drop (off + nat ds) blob) =
       bmp_data b @ concat (map bmp_data bs)" by simp
  from take_append_split [OF this] have
    d1: "take (length (bmp_data b)) (drop (off + nat ds) blob) = bmp_data b" and
    d2: "take (length (concat (map bmp_data bs))) (drop (off + length (bmp_data b) + nat ds) blob) =
       concat (map bmp_data bs)"
    by (simp_all add: add.commute add.left_commute)
  from Cons.prems have b: "bitmap_fits pals b" "bitmap_writable b" "fits_I (int off)"
    by simp_all
  note lb = load_bitmap_written [OF b Cons.prems(4) d1]
  from Cons.prems have r: "list_all (bitmap_fits pals) bs" "list_all bitmap_writable bs"
    "offsets_fit bs (off + length (bmp_data b))"
    by simp_all
  from Cons.IH [OF r Cons.prems(4) d2, of "Suc i"] show ?case by (simp add: lb)
qed

lemma LoadBitmaps_written:
  assumes "fits_I (int (length bs))" "list_all (bitmap_fits pals) bs" "list_all bitmap_writable bs"
    "offsets_fit bs 0" "blob_holds blob (concat (map bmp_data bs))"
  shows "LoadBitmaps blob pals (le_bytes 4 (int (length bs)) @ table_bytes bs 0 @ rest) = Inr (bs, rest)"
proof -
  from assms(5) have h: "14 \<le> length blob" "take 2 blob = tag_BM"
    and d: "take (length (concat (map bmp_data bs)))
         (drop (0 + nat (unpack_I (take 4 (drop 10 blob)))) blob) = concat (map bmp_data bs)"
    unfolding blob_holds_def by simp_all
  have len: "4 \<le> length (le_bytes 4 (int (length bs)) @ table_bytes bs 0 @ rest)" by simp
  from load_bitmaps_written [OF assms(2,3,4) unpack_I_nonneg d, of 0 rest] assms(1)
  show ?thesis
    by (simp add: LoadBitmaps_table [OF h len] unpack_I_le_bytes)
qed

lemma blob_holds_minimal: "blob_holds (minimal_blob_writer pixels) pixels"
  by (simp add: blob_holds_def minimal_blob_writer_def tag_BM_def unpack_I_def)

lemma Write_bytes:
  assumes "container_fits c"
    and "list_all bitmap_writable (bitmaps c)"
    and "offsets_fit (bitmaps c) 0"
  shows "Write wbmp c =
     \<lparr>prt_out = container_bytes c,
      bmp_out = Some (wbmp (concat (map bmp_data (bitmaps c)))), raised = None\<rparr>"
proof -
  from assms(1) have f: "fits_I (int (length (palettes c)))"
    "list_all (\<lambda>p. list_all color_fits (colors p)) (palettes c)"
    "fits_I (int (length (bitmaps c)))" "list_all (bitmap_fits (palettes c)) (bitmaps c)"
    unfolding container_fits_def by blast+
  note p = WritePalettes_bytes [OF f(1,2)]
  note b = WriteBitmaps_bytes [OF f(3,4) assms(2,3), of wbmp]
  note a = WriteAnimations_bytes [OF assms(1)]
  show ?thesis
    unfolding Write_def p b a by (simp add: container_bytes_def)
qed

lemma Load_written:
  assumes "container_fits c"
    and "list_all (\<lambda>p. length (colors p) = 256) (palettes c)"
    and "list_all bitmap_writable (bitmaps c)"
    and "offsets_fit (bitmaps c) 0"
    and "blob_holds blob (concat (map bmp_data (bitmaps c)))"
  shows "Load (container_bytes c) blob = Inr c"
proof -
  from assms(1) have f: "fits_I (int (length (palettes c)))"
    "list_all (\<lambda>p. list_all color_fits (colors p)) (palettes c)"
    "fits_I (int (length (bitmaps c)))" "list_all (bitmap_fits (palettes c)) (bitmaps c)"
    unfolding container_fits_def by blast+
  from f(2) assms(2) have
    pc: "list_all (\<lambda>p. list_all color_fits (colors p) \<and> length (colors p) = 256) (palettes c)"
    by (simp add: list_all_iff)
  have p: "LoadPalettes (container_bytes c) =
      Inr (palettes c, le_bytes 4 (int (length (bitmaps c))) @ table_bytes (bitmaps c) 0 @
                 animations_bytes c)"
    unfolding container_bytes_def by (rule LoadPalettes_written [OF f(1) pc])
  have b: "LoadBitmaps blob (palettes c)
      (le_bytes 4 (int (length (bitmaps c))) @ table_bytes (bitmaps c) 0 @ animations_bytes c) =
      Inr (bitmaps c, animations_bytes c)"
    by (rule LoadBitmaps_written [OF f(3,4) assms(3,4,5)])
  note a = LoadAnimations_written [OF assms(1)]
  show ?thesis
    by (simp add: Load_def p b a)
qed

text \<open>
  C1, as the code has it. Take a container that \<open>Load\<close> returned in which every palette
  has 256 colours, every bitmap has a width of at most 4294967292 and a pixel buffer of
  \<open>((width + 3) & ~3) * height\<close> bytes, and the offsets of the bitmaps in the master
  buffer fit 32 bits; and a writer of the companion blob whose output for the master
  buffer carries the magic and holds the buffer at its \<open>data_start\<close>. Then \<open>Write\<close>
  raises nothing, and \<open>Load\<close> of the main stream and the blob it wrote returns the same
  container: palettes, bitmaps, animations with their frames, subframes, optional fields
  and appendix records, the optional-entries count and the extra data.
\<close>

theorem load_write_load:
  assumes "Load prt bmp = Inr c"
    and "list_all (\<lambda>p. length (colors p) = 256) (palettes c)"
    and "list_all bitmap_writable (bitmaps c)"
    and "offsets_fit (bitmaps c) 0"
    and "blob_holds (wbmp (concat (map bmp_data (bitmaps c)))) (concat (map bmp_data (bitmaps c)))"
  shows "raised (Write wbmp c) = None
     \<and> bmp_out (Write wbmp c) = Some (wbmp (concat (map bmp_data (bitmaps c))))
     \<and> Load (prt_out (Write wbmp c)) (wbmp (concat (map bmp_data (bitmaps c)))) = Inr c"
proof -
  note f = Load_fits [OF assms(1)]
  note w = Write_bytes [OF f assms(3,4), of wbmp]
  note l = Load_written [OF f assms(2,3,4,5)]
  show ?thesis unfolding w using l by simp
qed

lemma palette_example_fits:
  "list_all color_fits (colors palette_example)" "length (colors palette_example) = 256"
  by (simp_all add: palette_example_def list_all_iff color_fits_def fits_B_def)

lemma palette_example_bytes_eq:
  "palette_example_bytes = tag_CPAL @ le_bytes 4 (int (length [palette_example])) @
     concat (map palette_bytes [palette_example])"
proof -
  have "le_bytes 4 1 = [1, 0, 0, 0]" "le_bytes 4 1048 = [0x18, 0x04, 0, 0]"
    "le_bytes 4 4 = [4, 0, 0, 0]" "le_bytes 4 1024 = [0, 4, 0, 0]"
    by code_simp+
  then show ?thesis
    by (simp add: palette_example_bytes_def palette_bytes_def palette_example_def color_bytes_def
        map_replicate)
qed

lemma LoadPalettes_example:
  "LoadPalettes (palette_example_bytes @ rest) = Inr ([palette_example], rest)"
proof -
  have "LoadPalettes (tag_CPAL @ le_bytes 4 (int (length [palette_example])) @
     concat (map palette_bytes [palette_example]) @ rest) = Inr ([palette_example], rest)"
    by (rule LoadPalettes_written) (simp_all add: fits_I_def palette_example_fits)
  then show ?thesis by (simp add: palette_example_bytes_eq)
qed

lemma WritePalettes_example: "WritePalettes [palette_example] = (palette_example_bytes, None)"
proof -
  have "WritePalettes [palette_example] =
     (tag_CPAL @ le_bytes 4 (int (length [palette_example])) @
       concat (map palette_bytes [palette_example]), None)"
    by (rule WritePalettes_bytes) (simp_all add: fits_I_def palette_example_fits)
  then show ?thesis by (simp add: palette_example_bytes_eq)
qed

lemma Load_example:
  assumes "LoadBitmaps bmp [palette_example] s = Inr (bms, s')"
    and "LoadAnimations s' = Inr (anims, no, ex)"
  shows "Load (palette_example_bytes @ s) bmp =
     Inr \<lparr>palettes = [palette_example], bitmaps = bms, animations = anims,
          num_optional_entries = no, extra_data = ex\<rparr>"
  by (simp add: Load_def LoadPalettes_example assms)

lemma Write_example_raised:
  assumes "palettes c = [palette_example]"
    and "WriteBitmaps wbmp (bitmaps c) = ((out2, Some e), b)"
  shows "Write wbmp c = \<lparr>prt_out = palette_example_bytes @ out2, bmp_out = b, raised = Some e\<rparr>"
  by (simp add: Write_def assms WritePalettes_example)

lemma Write_example:
  assumes "palettes c = [palette_example]"
    and "WriteBitmaps wbmp (bitmaps c) = ((out2, None), b)"
    and "WriteAnimations c = (out3, r)"
  shows "Write wbmp c = \<lparr>prt_out = palette_example_bytes @ out2 @ out3, bmp_out = b, raised = r\<rparr>"
  by (simp add: Write_def assms WritePalettes_example)

lemma Load_round_trip: "Load prt_round_trip bmp_16_bytes = Inr container_round_trip"
proof -
  have b: "LoadBitmaps bmp_16_bytes [palette_example] (table_padded_8 @ animations_round_trip_bytes) =
      Inr ([bitmap_padded_8], animations_round_trip_bytes)"
    by code_simp
  have a: "LoadAnimations animations_round_trip_bytes = Inr (animations_round_trip, 1, [0xAA, 0xBB])"
    by code_simp
  from Load_example [OF b a] show ?thesis
    by (simp add: prt_round_trip_def container_round_trip_def)
qed

theorem load_write_load_witness:
  "Load prt_round_trip bmp_16_bytes = Inr container_round_trip
   \<and> list_all (\<lambda>p. length (colors p) = 256) (palettes container_round_trip)
   \<and> list_all bitmap_writable (bitmaps container_round_trip)
   \<and> offsets_fit (bitmaps container_round_trip) 0
   \<and> blob_holds (minimal_blob_writer (concat (map bmp_data (bitmaps container_round_trip))))
        (concat (map bmp_data (bitmaps container_round_trip)))
   \<and> raised (Write minimal_blob_writer container_round_trip) = None
   \<and> bmp_out (Write minimal_blob_writer container_round_trip) =
        Some (minimal_blob_writer (concat (map bmp_data (bitmaps container_round_trip))))
   \<and> Load (prt_out (Write minimal_blob_writer container_round_trip))
        (minimal_blob_writer (concat (map bmp_data (bitmaps container_round_trip)))) =
      Inr container_round_trip"
proof -
  note l = Load_round_trip
  have p: "list_all (\<lambda>p. length (colors p) = 256) (palettes container_round_trip)"
    by (simp add: container_round_trip_def palette_example_fits)
  have w: "list_all bitmap_writable (bitmaps container_round_trip)"
    by (simp add: container_round_trip_def bitmap_writable_def bitmap_padded_8_def)
  have o: "offsets_fit (bitmaps container_round_trip) 0"
    by (simp add: container_round_trip_def fits_I_def)
  note h = blob_holds_minimal [of "concat (map bmp_data (bitmaps container_round_trip))"]
  from load_write_load [where wbmp = minimal_blob_writer, OF l p w o h] l p w o h
  show ?thesis by blast
qed

lemma LoadAnimations_none: "LoadAnimations animations_none_bytes = Inr ([], 0, [])"
  by code_simp

text \<open>
  Three containers that \<open>Load\<close> returns and that do not come back. A palette without
  colours is written as an entry announcing 1024 bytes of colours that are not there, and
  loading it runs out of data. A bitmap of width 1 whose record gave the padded width 8
  is written with the padded width 4, and comes back with 4 of its 8 pixel bytes. A
  bitmap of width 4294967295 has the padded width 4294967296, which \<open>struct.pack\<close>
  refuses.
\<close>

theorem load_write_load_counterexample:
  "Load prt_palette_head_0 bmp_empty = Inr container_empty_palette
   \<and> raised (Write minimal_blob_writer container_empty_palette) = None
   \<and> bmp_out (Write minimal_blob_writer container_empty_palette) = Some (minimal_blob_writer [])
   \<and> Load (prt_out (Write minimal_blob_writer container_empty_palette)) (minimal_blob_writer []) =
       Inl (PRTLoadError (RanOutOfData 4 0))
   \<and> Load (palette_example_bytes @ table_padded_wide @ animations_none_bytes) bmp_16_bytes =
       Inr container_padded_wide
   \<and> raised (Write minimal_blob_writer container_padded_wide) = None
   \<and> bmp_out (Write minimal_blob_writer container_padded_wide) =
       Some (minimal_blob_writer [1, 2, 3, 4, 5, 6, 7, 8])
   \<and> Load (prt_out (Write minimal_blob_writer container_padded_wide))
         (minimal_blob_writer [1, 2, 3, 4, 5, 6, 7, 8]) = Inr container_padded_narrow
   \<and> container_padded_narrow \<noteq> container_padded_wide
   \<and> Load (palette_example_bytes @ table_width_max @ animations_none_bytes) bmp_16_bytes =
       Inr container_width_max
   \<and> raised (Write minimal_blob_writer container_width_max) = Some StructError"
proof -
  have a1: "Load prt_palette_head_0 bmp_empty = Inr container_empty_palette"
    by code_simp
  have a2: "Write minimal_blob_writer container_empty_palette =
      \<lparr>prt_out = tag_CPAL @ [1, 0, 0, 0] @ tag_PPAL @ [0x18, 0x04, 0, 0] @
                  tag_head @ [4, 0, 0, 0] @ [1, 0, 0, 0] @ tag_data @ [0, 4, 0, 0] @
                  [0, 0, 0, 0] @ animations_none_bytes,
        bmp_out = Some (minimal_blob_writer []), raised = None\<rparr>"
    by code_simp
  have a3: "Load (tag_CPAL @ [1, 0, 0, 0] @ tag_PPAL @ [0x18, 0x04, 0, 0] @
                  tag_head @ [4, 0, 0, 0] @ [1, 0, 0, 0] @ tag_data @ [0, 4, 0, 0] @
                  [0, 0, 0, 0] @ animations_none_bytes) (minimal_blob_writer []) =
       Inl (PRTLoadError (RanOutOfData 4 0))"
    by code_simp
  have b1: "Load (palette_example_bytes @ table_padded_wide @ animations_none_bytes) bmp_16_bytes =
       Inr container_padded_wide"
  proof -
    have "LoadBitmaps bmp_16_bytes [palette_example] (table_padded_wide @ animations_none_bytes) =
        Inr (bitmaps container_padded_wide, animations_none_bytes)"
      by code_simp
    from Load_example [OF this LoadAnimations_none] show ?thesis
      by (simp add: container_padded_wide_def)
  qed
  have b2: "Write minimal_blob_writer container_padded_wide =
      \<lparr>prt_out = palette_example_bytes @
         ([1, 0, 0, 0] @ [4, 0, 0, 0] @ [0, 0, 0, 0] @ [1, 0, 0, 0] @ [1, 0, 0, 0] @ [1, 0] @ [0, 0]) @
         animations_none_bytes,
        bmp_out = Some (minimal_blob_writer [1, 2, 3, 4, 5, 6, 7, 8]), raised = None\<rparr>"
  proof (rule Write_example)
    show "palettes container_padded_wide = [palette_example]"
      by (simp add: container_padded_wide_def)
    show "WriteBitmaps minimal_blob_writer (bitmaps container_padded_wide) =
        (([1, 0, 0, 0] @ [4, 0, 0, 0] @ [0, 0, 0, 0] @ [1, 0, 0, 0] @ [1, 0, 0, 0] @ [1, 0] @ [0, 0], None),
         Some (minimal_blob_writer [1, 2, 3, 4, 5, 6, 7, 8]))"
      by code_simp
    show "WriteAnimations container_padded_wide = (animations_none_bytes, None)"
      by code_simp
  qed
  have b3: "Load (palette_example_bytes @
         ([1, 0, 0, 0] @ [4, 0, 0, 0] @ [0, 0, 0, 0] @ [1, 0, 0, 0] @ [1, 0, 0, 0] @ [1, 0] @ [0, 0]) @
         animations_none_bytes) (minimal_blob_writer [1, 2, 3, 4, 5, 6, 7, 8]) =
       Inr container_padded_narrow"
  proof -
    have "LoadBitmaps (minimal_blob_writer [1, 2, 3, 4, 5, 6, 7, 8]) [palette_example]
        (([1, 0, 0, 0] @ [4, 0, 0, 0] @ [0, 0, 0, 0] @ [1, 0, 0, 0] @ [1, 0, 0, 0] @ [1, 0] @ [0, 0]) @
         animations_none_bytes) =
        Inr (bitmaps container_padded_narrow, animations_none_bytes)"
      by code_simp
    from Load_example [OF this LoadAnimations_none] show ?thesis
      by (simp add: container_padded_narrow_def)
  qed
  have b4: "container_padded_narrow \<noteq> container_padded_wide"
    by (simp add: container_padded_narrow_def container_padded_wide_def)
  have c1: "Load (palette_example_bytes @ table_width_max @ animations_none_bytes) bmp_16_bytes =
       Inr container_width_max"
  proof -
    have "LoadBitmaps bmp_16_bytes [palette_example] (table_width_max @ animations_none_bytes) =
        Inr (bitmaps container_width_max, animations_none_bytes)"
      by code_simp
    from Load_example [OF this LoadAnimations_none] show ?thesis
      by (simp add: container_width_max_def)
  qed
  have c2: "Write minimal_blob_writer container_width_max =
      \<lparr>prt_out = palette_example_bytes @ [1, 0, 0, 0], bmp_out = None, raised = Some StructError\<rparr>"
  proof (rule Write_example_raised)
    show "palettes container_width_max = [palette_example]"
      by (simp add: container_width_max_def)
    show "WriteBitmaps minimal_blob_writer (bitmaps container_width_max) =
        (([1, 0, 0, 0], Some StructError), None)"
      by code_simp
  qed
  show ?thesis
    unfolding a2 b2 c2 using a1 a3 b1 b3 b4 c1 by simp
qed

end
